theory Spec2Isabelle
  imports Main "HOL-Library.Sublist"
begin

section \<open>JavaScript values and strings\<close>

text \<open>
  The plugin receives its embed, attachment and message records untyped (\<open>any\<close>), so a
  field may hold something else than the string its annotation promises. Field values
  are the JavaScript primitives \<open>undefined\<close>, \<open>null\<close>, the booleans and the strings;
  a boolean stands for every value that is neither nullish nor a string. Strings are
  \<open>string\<close>, one \<open>char\<close> for each code unit below 256.
\<close>

datatype jsval = JUndefined | JNull | JBool bool | JStr string

datatype fault = TypeError

text \<open>The conversion of a value to a condition (\<open>if (x)\<close>, \<open>!x\<close>, \<open>x && y\<close>).\<close>

fun truthy :: "jsval \<Rightarrow> bool" where
  "truthy JUndefined = False"
| "truthy JNull = False"
| "truthy (JBool b) = b"
| "truthy (JStr s) = (s \<noteq> [])"

text \<open>The string a value is converted to where a string is expected.\<close>

fun to_str :: "jsval \<Rightarrow> string" where
  "to_str JUndefined = ''undefined''"
| "to_str JNull = ''null''"
| "to_str (JBool b) = (if b then ''true'' else ''false'')"
| "to_str (JStr s) = s"

text \<open>\<open>a || b\<close>: the left operand when it is truthy, the right one otherwise.\<close>

definition js_or :: "jsval \<Rightarrow> jsval \<Rightarrow> jsval" where
  "js_or a b = (if truthy a then a else b)"

text \<open>
  \<open>String.prototype.toLowerCase\<close> on code units below 256: the ASCII capitals and
  the Latin-1 capitals U+00C0 to U+00DE, the multiplication sign U+00D7 apart.
\<close>

definition lower_char :: "char \<Rightarrow> char" where
  "lower_char c =
     (let n = (of_char c :: nat)
      in if (65 \<le> n \<and> n \<le> 90) \<or> (192 \<le> n \<and> n \<le> 222 \<and> n \<noteq> 215)
         then char_of (n + 32) else c)"

definition toLowerCase :: "string \<Rightarrow> string" where
  "toLowerCase s = map lower_char s"

definition endsWith :: "string \<Rightarrow> string \<Rightarrow> bool" where
  "endsWith s suf = (length suf \<le> length s \<and> drop (length s - length suf) s = suf)"

text \<open>
  \<open>String.prototype.trim\<close> removes white space and line terminators from both ends;
  below 256 these are the code units 9 to 13, 32 and 160.
\<close>

definition is_white_space :: "char \<Rightarrow> bool" where
  "is_white_space c =
     (let n = (of_char c :: nat) in (9 \<le> n \<and> n \<le> 13) \<or> n = 32 \<or> n = 160)"

definition trim :: "string \<Rightarrow> string" where
  "trim s = rev (dropWhile is_white_space (rev (dropWhile is_white_space s)))"

text \<open>
  The test \<open>/\.gif(?:\?|$)/i.test(url)\<close>: somewhere in the string stands \<open>.gif\<close>, in
  either case, followed by a question mark or by the end of the string.
\<close>

fun gif_here :: "string \<Rightarrow> bool" where
  "gif_here (d # g # i # f # rest) =
     (d = CHR ''.'' \<and> (g = CHR ''g'' \<or> g = CHR ''G'') \<and> (i = CHR ''i'' \<or> i = CHR ''I'')
      \<and> (f = CHR ''f'' \<or> f = CHR ''F'')
      \<and> (case rest of [] \<Rightarrow> True | c # _ \<Rightarrow> c = CHR ''?''))"
| "gif_here _ = False"

fun gif_regex_test :: "string \<Rightarrow> bool" where
  "gif_regex_test [] = False"
| "gif_regex_test (c # cs) = (gif_here (c # cs) \<or> gif_regex_test cs)"

text \<open>\<open>s.replace(/\/?$/, "")\<close>: one slash at the end of the string is removed.\<close>

definition strip_trailing_slash :: "string \<Rightarrow> string" where
  "strip_trailing_slash s = (if endsWith s ''/'' then butlast s else s)"

section \<open>The platform's URL objects\<close>

text \<open>
  The plugin calls the host's \<open>URL\<close> class and \<open>decodeURI\<close>. A parsed URL is a record
  of the components the plugin reads and writes; the query is kept as the list of
  name-value pairs \<open>searchParams\<close> works on, and \<open>opaque_path\<close> tells a URL whose path
  is a plain string (as in \<open>mailto:\<close>), on which the \<open>pathname\<close> and \<open>host\<close> setters do
  nothing. The parser \<open>new URL(s)\<close>, the serialiser \<open>toString()\<close> and \<open>decodeURI\<close> are
  parameters of the model: \<open>None\<close> is the exception the call throws.
\<close>

record url =
  protocol :: string
  host :: string
  pathname :: string
  opaque_path :: bool
  searchParams :: "(string \<times> string) list"
  hash :: string

record platform =
  new_URL :: "string \<Rightarrow> url option"
  toString :: "url \<Rightarrow> string"
  decodeURI :: "string \<Rightarrow> string option"

definition searchParams_get :: "url \<Rightarrow> string \<Rightarrow> string option" where
  "searchParams_get u k = map_of (searchParams u) k"

definition searchParams_delete :: "url \<Rightarrow> string \<Rightarrow> url" where
  "searchParams_delete u k = u\<lparr>searchParams := filter (\<lambda>kv. fst kv \<noteq> k) (searchParams u)\<rparr>"

definition set_hash :: "string \<Rightarrow> url \<Rightarrow> url" where
  "set_hash v u = u\<lparr>hash := v\<rparr>"

definition set_pathname :: "string \<Rightarrow> url \<Rightarrow> url" where
  "set_pathname v u = (if opaque_path u then u else u\<lparr>pathname := v\<rparr>)"

definition set_host :: "string \<Rightarrow> url \<Rightarrow> url" where
  "set_host v u = (if opaque_path u then u else u\<lparr>host := v\<rparr>)"

section \<open>GIF classification and URL matching\<close>

definition isGifUrl :: "platform \<Rightarrow> jsval \<Rightarrow> bool" where
  "isGifUrl p url =
     (if \<not> truthy url then False
      else case new_URL p (to_str url) of
        Some u \<Rightarrow>
          if endsWith (toLowerCase (pathname u)) ''.gif'' then True
          else if searchParams_get u ''animated'' = Some ''true'' then True
          else gif_regex_test (to_str url)
      | None \<Rightarrow> gif_regex_test (to_str url))"

definition tracking_params :: "string list" where
  "tracking_params =
     [''utm_source'', ''utm_medium'', ''utm_campaign'', ''utm_content'', ''utm_term'']"

text \<open>The body of \<open>normalize\<close>'s \<open>try\<close> block after the URL has been parsed.\<close>

definition normalize_parsed :: "url \<Rightarrow> url" where
  "normalize_parsed parsed =
     (let p1 = foldl searchParams_delete parsed tracking_params;
          p2 = set_hash [] p1;
          p3 = (if pathname p2 \<noteq> ''/'' \<and> endsWith (pathname p2) ''/''
                then set_pathname (butlast (pathname p2)) p2 else p2)
      in set_host (toLowerCase (host p3)) p3)"

definition normalize :: "platform \<Rightarrow> jsval \<Rightarrow> jsval" where
  "normalize p u =
     (case new_URL p (to_str u) of
        Some parsed \<Rightarrow> JStr (toString p (normalize_parsed parsed))
      | None \<Rightarrow>
          (case decodeURI p (to_str u) of
             Some d \<Rightarrow> JStr (strip_trailing_slash d)
           | None \<Rightarrow> u))"

text \<open>\<open>urls.map(u => u.trim())\<close>: an entry that is not a string has no \<open>trim\<close>.\<close>

fun trim_all :: "jsval list \<Rightarrow> fault + string list" where
  "trim_all [] = Inr []"
| "trim_all (JStr s # us) =
     (case trim_all us of Inl e \<Rightarrow> Inl e | Inr ts \<Rightarrow> Inr (trim s # ts))"
| "trim_all (_ # us) = Inl TypeError"

definition equalsAnyUrl :: "platform \<Rightarrow> jsval \<Rightarrow> jsval list \<Rightarrow> fault + bool" where
  "equalsAnyUrl p url urls =
     (let target = normalize p url
      in case trim_all urls of
           Inl e \<Rightarrow> Inl e
         | Inr ts \<Rightarrow>
             Inr (target \<in> set (map (\<lambda>t. normalize p (JStr t)) (filter (\<lambda>t. t \<noteq> []) ts))))"

text \<open>
  The set of \<open>candidates\<close> that \<open>equalsAnyUrl\<close> builds from a list of strings: each
  string trimmed, the empty ones dropped, the others normalized.
\<close>

definition candidates :: "platform \<Rightarrow> string list \<Rightarrow> jsval set" where
  "candidates p xs = (\<lambda>t. normalize p (JStr t)) ` {t \<in> trim ` set xs. t \<noteq> []}"

section \<open>The records the host hands over, and the plugin's state\<close>

text \<open>
  An embed carries \<open>type\<close>, \<open>url\<close> and the optional objects \<open>image\<close> and \<open>thumbnail\<close>,
  each with a \<open>url\<close> of its own; an attachment carries \<open>url\<close>, \<open>proxy_url\<close>,
  \<open>content_type\<close> and \<open>message_id\<close>; a message carries \<open>id\<close>, \<open>channel_id\<close>,
  \<open>attachments\<close> and \<open>embeds\<close>. The fields named \<open>url\<close>, \<open>type\<close> and \<open>id\<close> in the
  source carry the name of their record here. A field that is missing reads as
  \<open>undefined\<close>, so a record that is itself \<open>null\<close> or \<open>undefined\<close> behaves under \<open>?.\<close>
  as the record whose fields are all \<open>undefined\<close>.
\<close>

record media =
  media_url :: jsval

record embed =
  embed_type :: jsval
  embed_url :: jsval
  image :: "media option"
  thumbnail :: "media option"

record attachment =
  att_url :: jsval
  proxy_url :: jsval
  content_type :: jsval
  message_id :: jsval

record message =
  msg_id :: jsval
  channel_id :: jsval
  attachments :: "attachment list"
  embeds :: "embed list"

text \<open>
  The two module-level sets and \<open>settings.store.patterns\<close>, which is \<open>None\<close> when the
  store holds no array there (\<open>undefined\<close> or \<open>null\<close>).
\<close>

record state =
  blockedMessageIds :: "jsval set"
  temporarilyUnblockedMessageIds :: "jsval set"
  stored_patterns :: "jsval list option"

text \<open>\<open>settings.store.patterns ?? []\<close>.\<close>

definition patterns :: "state \<Rightarrow> jsval list" where
  "patterns s = (case stored_patterns s of None \<Rightarrow> [] | Some urls \<Rightarrow> urls)"

text \<open>
  \<open>equalsAnyUrl(url, settings.store.patterns)\<close>: \<open>normalize(url)\<close> does not throw, and
  \<open>urls.map\<close> throws when \<open>urls\<close> is \<open>undefined\<close> or \<open>null\<close>.
\<close>

definition equalsAnyStored :: "platform \<Rightarrow> state \<Rightarrow> jsval \<Rightarrow> fault + bool" where
  "equalsAnyStored p s url =
     (case stored_patterns s of None \<Rightarrow> Inl TypeError | Some urls \<Rightarrow> equalsAnyUrl p url urls)"

text \<open>\<open>x?.url\<close> on an object that may be absent.\<close>

definition opt_url :: "media option \<Rightarrow> jsval" where
  "opt_url m = (case m of None \<Rightarrow> JUndefined | Some x \<Rightarrow> media_url x)"

section \<open>The filtering engine\<close>

definition markBlocked :: "state \<Rightarrow> jsval \<Rightarrow> state" where
  "markBlocked s messageId =
     (if truthy messageId
      then s\<lparr>blockedMessageIds := insert messageId (blockedMessageIds s)\<rparr> else s)"

definition shouldBlockUrl :: "platform \<Rightarrow> state \<Rightarrow> jsval \<Rightarrow> bool" where
  "shouldBlockUrl p s url =
     (if \<not> truthy url then False
      else if \<not> isGifUrl p url then False
      else case equalsAnyStored p s url of Inl e \<Rightarrow> False | Inr b \<Rightarrow> b)"

text \<open>
  The \<open>try\<close> block of \<open>_shouldBlockEmbed\<close>: \<open>Inl\<close> is an exception that reaches its
  \<open>catch\<close>. Nothing is written to the state before the last call that can throw.
\<close>

definition shouldBlockEmbed_try ::
  "platform \<Rightarrow> state \<Rightarrow> embed \<Rightarrow> message \<Rightarrow> fault + bool \<times> state" where
  "shouldBlockEmbed_try p s e m =
     (if msg_id m \<in> temporarilyUnblockedMessageIds s then Inr (False, s)
      else
        let url = js_or (js_or (embed_url e) (opt_url (image e))) (opt_url (thumbnail e));
            ty = embed_type e;
            isGifLike = (ty = JStr ''gifv'' \<or> isGifUrl p url)
        in if \<not> isGifLike then Inr (False, s)
           else
             case (if ty = JStr ''gifv''
                   then (if truthy url then equalsAnyStored p s url else Inr False)
                   else Inr (shouldBlockUrl p s url)) of
               Inl f \<Rightarrow> Inl f
             | Inr shouldBlock \<Rightarrow>
                 Inr (shouldBlock, if shouldBlock then markBlocked s (msg_id m) else s))"

definition shouldBlockEmbed :: "platform \<Rightarrow> state \<Rightarrow> embed \<Rightarrow> message \<Rightarrow> bool \<times> state" where
  "shouldBlockEmbed p s e m =
     (case shouldBlockEmbed_try p s e m of Inl f \<Rightarrow> (False, s) | Inr r \<Rightarrow> r)"

text \<open>
  The callback \<open>_filterAttachments\<close> gives to \<open>arr.filter\<close>: whether the attachment is
  kept, and the state after it. \<open>type?.toLowerCase()\<close> throws on a \<open>content_type\<close>
  that is neither nullish nor a string.
\<close>

definition keep_attachment ::
  "platform \<Rightarrow> state \<Rightarrow> attachment \<Rightarrow> fault + bool \<times> state" where
  "keep_attachment p s att =
     (if truthy (message_id att) \<and> message_id att \<in> temporarilyUnblockedMessageIds s
      then Inr (True, s)
      else
        let url = js_or (att_url att) (proxy_url att)
        in case (case content_type att of
                   JStr t \<Rightarrow> Inr (toLowerCase t = ''image/gif'' \<or> isGifUrl p url)
                 | JBool b \<Rightarrow> Inl TypeError
                 | _ \<Rightarrow> Inr (isGifUrl p url)) of
             Inl f \<Rightarrow> Inl f
           | Inr isGif \<Rightarrow>
               if \<not> isGif then Inr (True, s)
               else
                 let shouldBlock = shouldBlockUrl p s url
                 in Inr (\<not> shouldBlock,
                         if shouldBlock then markBlocked s (message_id att) else s))"

text \<open>
  \<open>arr.filter\<close> calls the callback on the elements in order; an exception ends the loop
  and leaves the state as the earlier elements made it.
\<close>

fun filter_loop ::
  "platform \<Rightarrow> state \<Rightarrow> attachment list \<Rightarrow> fault \<times> state + attachment list \<times> state" where
  "filter_loop p s [] = Inr ([], s)"
| "filter_loop p s (a # as) =
     (case keep_attachment p s a of
        Inl f \<Rightarrow> Inl (f, s)
      | Inr (k, s') \<Rightarrow>
          (case filter_loop p s' as of
             Inl e \<Rightarrow> Inl e
           | Inr (out, s'') \<Rightarrow> Inr (if k then a # out else out, s'')))"

text \<open>The argument of \<open>_filterAttachments\<close>: an array, or a value that is none.\<close>

datatype attachments_arg = NotArray jsval | Array "attachment list"

definition filterAttachments ::
  "platform \<Rightarrow> state \<Rightarrow> attachments_arg \<Rightarrow> attachments_arg \<times> state" where
  "filterAttachments p s arr =
     (case arr of
        NotArray v \<Rightarrow> (arr, s)
      | Array as \<Rightarrow>
          (case filter_loop p s as of
             Inl (f, s') \<Rightarrow> (arr, s')
           | Inr (out, s') \<Rightarrow> (Array out, s')))"

section \<open>User actions\<close>

text \<open>
  The loop of \<open>_addUrlsToBlocklistAndRefresh\<close> over \<open>urls\<close>, started on a copy of the
  stored patterns. It has no \<open>try\<close>: an exception of \<open>equalsAnyUrl\<close> leaves the function.
\<close>

fun mergeUrls :: "platform \<Rightarrow> jsval list \<Rightarrow> jsval list \<Rightarrow> fault + jsval list" where
  "mergeUrls p merged [] = Inr merged"
| "mergeUrls p merged (u # us) =
     (case equalsAnyUrl p u merged of
        Inl f \<Rightarrow> Inl f
      | Inr present \<Rightarrow> mergeUrls p (if present then merged else merged @ [u]) us)"

definition addUrlsToBlocklistAndRefresh ::
  "platform \<Rightarrow> state \<Rightarrow> message \<Rightarrow> jsval list \<Rightarrow> fault + state" where
  "addUrlsToBlocklistAndRefresh p s m urls =
     (case mergeUrls p (patterns s) urls of
        Inl f \<Rightarrow> Inl f
      | Inr merged \<Rightarrow> Inr (s\<lparr>stored_patterns := Some merged\<rparr>))"

definition toggleTemporaryUnblock :: "state \<Rightarrow> message \<Rightarrow> bool \<Rightarrow> state" where
  "toggleTemporaryUnblock s m shouldUnblock =
     (if shouldUnblock
      then s\<lparr>temporarilyUnblockedMessageIds := insert (msg_id m) (temporarilyUnblockedMessageIds s)\<rparr>
      else s\<lparr>temporarilyUnblockedMessageIds := temporarilyUnblockedMessageIds s - {msg_id m}\<rparr>)"

text \<open>
  What can happen in a session. The three edits of the settings panel (\<open>setAt\<close>, \<open>add\<close>,
  \<open>remove\<close>) each end in \<open>settings.store.patterns = copy\<close>; \<open>EditPatterns\<close> stores any
  list. An action whose handler throws leaves the state as it was.
\<close>

datatype operation =
    ClassifyEmbed embed message
  | FilterAttachments attachments_arg
  | Reveal message
  | HideAgain message
  | BlockThese message "jsval list"
  | EditPatterns "jsval list"

fun step :: "platform \<Rightarrow> state \<Rightarrow> operation \<Rightarrow> state" where
  "step p s (ClassifyEmbed e m) = snd (shouldBlockEmbed p s e m)"
| "step p s (FilterAttachments arr) = snd (filterAttachments p s arr)"
| "step p s (Reveal m) = toggleTemporaryUnblock s m True"
| "step p s (HideAgain m) = toggleTemporaryUnblock s m False"
| "step p s (BlockThese m urls) =
     (case addUrlsToBlocklistAndRefresh p s m urls of Inl f \<Rightarrow> s | Inr s' \<Rightarrow> s')"
| "step p s (EditPatterns new) = s\<lparr>stored_patterns := Some new\<rparr>"

fun run :: "platform \<Rightarrow> state \<Rightarrow> operation list \<Rightarrow> state" where
  "run p s [] = s"
| "run p s (x # xs) = run p (step p s x) xs"

section \<open>A platform to compute with\<close>

text \<open>
  An instance of the platform for the concrete inputs below. Its parser reads the
  strings \<open>http(s)://host[/path][?query][#fragment]\<close> whose host is made of labels of
  letters separated by dots and whose path, query and fragment are made of letters,
  digits, \<open>.\<close>, \<open>_\<close> and \<open>-\<close> (and \<open>/\<close> in the path, \<open>&\<close> and at most one \<open>=\<close> for each
  parameter in the query), with no path segment \<open>.\<close> or \<open>..\<close>: on these the URL
  Standard rewrites nothing but the case of scheme and host and an empty path, which
  becomes \<open>/\<close>, and \<open>searchParams\<close> writes a parameter back as \<open>name=value\<close>. Every
  other string is reported as a failure.
  That is what the standard does with a string in which no scheme can be read (one
  that does not start with a letter, or in which something else than a letter, a
  digit, \<open>+\<close>, \<open>-\<close> or \<open>.\<close> comes before the first colon), since the plugin gives no base
  URL; the concrete inputs below are of one of these two kinds. Its \<open>decodeURI\<close>
  decodes the escapes of ASCII characters, keeps those of \<open>; / ? : @ & = + $ , #\<close> and
  fails on anything else after a percent sign.
\<close>

definition is_letter :: "char \<Rightarrow> bool" where
  "is_letter c =
     (let n = (of_char c :: nat) in (65 \<le> n \<and> n \<le> 90) \<or> (97 \<le> n \<and> n \<le> 122))"

definition is_digit :: "char \<Rightarrow> bool" where
  "is_digit c = (let n = (of_char c :: nat) in 48 \<le> n \<and> n \<le> 57)"

definition is_plain :: "char \<Rightarrow> bool" where
  "is_plain c = (is_letter c \<or> is_digit c \<or> c \<in> set ''._-'')"

fun split_on :: "char \<Rightarrow> string \<Rightarrow> string list" where
  "split_on c [] = [[]]"
| "split_on c (x # xs) =
     (if x = c then [] # split_on c xs
      else case split_on c xs of [] \<Rightarrow> [[x]] | w # ws \<Rightarrow> (x # w) # ws)"

definition parse_query :: "string \<Rightarrow> (string \<times> string) list" where
  "parse_query q =
     map (\<lambda>kv. (takeWhile (\<lambda>c. c \<noteq> CHR ''='') kv, drop 1 (dropWhile (\<lambda>c. c \<noteq> CHR ''='') kv)))
       (filter (\<lambda>kv. kv \<noteq> []) (split_on (CHR ''&'') q))"

fun serialize_query :: "(string \<times> string) list \<Rightarrow> string" where
  "serialize_query [] = []"
| "serialize_query [(k, v)] = k @ ''='' @ v"
| "serialize_query ((k, v) # kvs) = k @ ''='' @ v @ ''&'' @ serialize_query kvs"

definition web_new_URL :: "string \<Rightarrow> url option" where
  "web_new_URL s =
     (let sch = toLowerCase (takeWhile (\<lambda>c. c \<noteq> CHR '':'') s);
          r0 = dropWhile (\<lambda>c. c \<noteq> CHR '':'') s;
          r1 = drop 3 r0;
          h = takeWhile (\<lambda>c. c \<notin> set ''/?#'') r1;
          r2 = dropWhile (\<lambda>c. c \<notin> set ''/?#'') r1;
          pth = takeWhile (\<lambda>c. c \<notin> set ''?#'') r2;
          r3 = dropWhile (\<lambda>c. c \<notin> set ''?#'') r2;
          q = (if take 1 r3 = ''?'' then takeWhile (\<lambda>c. c \<noteq> CHR ''#'') (drop 1 r3) else []);
          f = drop 1 (dropWhile (\<lambda>c. c \<noteq> CHR ''#'') r3)
      in if (sch = ''http'' \<or> sch = ''https'') \<and> take 3 r0 = ''://''
            \<and> list_all (\<lambda>c. is_letter c \<or> c = CHR ''.'') h
            \<and> [] \<notin> set (split_on (CHR ''.'') h)
            \<and> list_all (\<lambda>c. is_plain c \<or> c = CHR ''/'') pth
            \<and> ''.'' \<notin> set (split_on (CHR ''/'') pth) \<and> ''..'' \<notin> set (split_on (CHR ''/'') pth)
            \<and> list_all (\<lambda>c. is_plain c \<or> c = CHR ''='' \<or> c = CHR ''&'') q
            \<and> list_all (\<lambda>kv. length (filter (\<lambda>c. c = CHR ''='') kv) \<le> 1)
                  (split_on (CHR ''&'') q)
            \<and> list_all is_plain f
         then Some \<lparr>protocol = sch @ '':'', host = toLowerCase h,
                    pathname = (if pth = [] then ''/'' else pth), opaque_path = False,
                    searchParams = parse_query q,
                    hash = (if f = [] then [] else CHR ''#'' # f)\<rparr>
         else None)"

definition web_toString :: "url \<Rightarrow> string" where
  "web_toString u =
     protocol u @ ''//'' @ host u @ pathname u
       @ (if searchParams u = [] then [] else CHR ''?'' # serialize_query (searchParams u))
       @ hash u"

definition hex_value :: "char \<Rightarrow> nat option" where
  "hex_value c =
     (let n = (of_char c :: nat)
      in if 48 \<le> n \<and> n \<le> 57 then Some (n - 48)
         else if 65 \<le> n \<and> n \<le> 70 then Some (n - 55)
         else if 97 \<le> n \<and> n \<le> 102 then Some (n - 87)
         else None)"

fun web_decodeURI :: "string \<Rightarrow> string option" where
  "web_decodeURI [] = Some []"
| "web_decodeURI (c # cs) =
     (if c = CHR ''%'' then
        (case cs of
           a # b # rest \<Rightarrow>
             (case (hex_value a, hex_value b) of
                (Some x, Some y) \<Rightarrow>
                  if 16 * x + y < 128 then
                    (case web_decodeURI rest of
                       None \<Rightarrow> None
                     | Some d \<Rightarrow>
                         if char_of (16 * x + y) \<in> set '';/?:@&=+$,#''
                         then Some (c # a # b # d)
                         else Some (char_of (16 * x + y) # d))
                  else None
              | _ \<Rightarrow> None)
         | _ \<Rightarrow> None)
      else (case web_decodeURI cs of None \<Rightarrow> None | Some d \<Rightarrow> Some (c # d)))"

definition web :: platform where
  "web = \<lparr>new_URL = web_new_URL, toString = web_toString, decodeURI = web_decodeURI\<rparr>"


text \<open>
  Names for three expressions of the filter callback: the URL \<open>att?.url || att?.proxy_url\<close>
  it looks at, its first test \<open>att?.message_id && temporarilyUnblockedMessageIds.has(att.message_id)\<close>,
  and the \<open>content_type\<close> values on which \<open>type?.toLowerCase()\<close> throws.
\<close>

definition attachment_url :: "attachment \<Rightarrow> jsval" where
  "attachment_url att = js_or (att_url att) (proxy_url att)"

definition bypassed :: "state \<Rightarrow> attachment \<Rightarrow> bool" where
  "bypassed s att =
     (truthy (message_id att) \<and> message_id att \<in> temporarilyUnblockedMessageIds s)"

fun no_toLowerCase :: "jsval \<Rightarrow> bool" where
  "no_toLowerCase (JBool b) = True"
| "no_toLowerCase _ = False"

text \<open>The entries of a pattern list on which \<open>u.trim()\<close> does not throw.\<close>

fun is_string :: "jsval \<Rightarrow> bool" where
  "is_string (JStr t) = True"
| "is_string _ = False"

section \<open>Concrete inputs\<close>

text \<open>
  The message \<open>{id: "m1", embeds: [{type: "gifv", url: "https://t.co/x.gif"}]}\<close> and a
  session that has that URL as its only pattern.
\<close>

definition gifv_embed :: embed where
  "gifv_embed = \<lparr>embed_type = JStr ''gifv'', embed_url = JStr ''https://t.co/x.gif'',
                  image = None, thumbnail = None\<rparr>"

definition message_m1 :: message where
  "message_m1 = \<lparr>msg_id = JStr ''m1'', channel_id = JStr ''c1'', attachments = [],
                  embeds = [gifv_embed]\<rparr>"

definition session_start :: state where
  "session_start = \<lparr>blockedMessageIds = {}, temporarilyUnblockedMessageIds = {},
                     stored_patterns = Some [JStr ''https://t.co/x.gif'']\<rparr>"

text \<open>
  An attachment that is a GIF by content type and by URL, with the pattern's URL and no
  \<open>message_id\<close>; a message that owns it; and a message whose id is the empty string,
  with the same attachment carrying that id.
\<close>

definition gif_attachment :: attachment where
  "gif_attachment = \<lparr>att_url = JStr ''https://t.co/x.gif'', proxy_url = JUndefined,
                      content_type = JStr ''image/gif'', message_id = JUndefined\<rparr>"



text \<open>A \<open>gifv\<close> embed that has no \<open>url\<close> of its own, only that of its image.\<close>

definition gifv_image_embed :: embed where
  "gifv_image_embed = \<lparr>embed_type = JStr ''gifv'', embed_url = JUndefined,
       image = Some \<lparr>media_url = JStr ''https://t.co/x.gif''\<rparr>, thumbnail = None\<rparr>"

text \<open>An attachment whose \<open>content_type\<close> is the boolean \<open>true\<close>.\<close>

definition malformed_attachment :: attachment where
  "malformed_attachment = \<lparr>att_url = JStr ''https://t.co/y.png'', proxy_url = JUndefined,
                            content_type = JBool True, message_id = JStr ''m1''\<rparr>"

section \<open>Facts about the string functions\<close>

lemma endsWith_iff: "endsWith s suf = (\<exists>pre. s = pre @ suf)"
proof
  assume "endsWith s suf"
  then have "s = take (length s - length suf) s @ suf"
    by (metis endsWith_def append_take_drop_id)
  then show "\<exists>pre. s = pre @ suf" ..
next
  assume "\<exists>pre. s = pre @ suf"
  then show "endsWith s suf" by (auto simp: endsWith_def)
qed

lemma endsWith_slash: "endsWith s ''/'' = (s \<noteq> [] \<and> last s = CHR ''/'')"
  by (cases s rule: rev_cases) (auto simp: endsWith_iff)

lemma endsWith_two_slashes:
  "endsWith s ''//'' = (s \<noteq> [] \<and> last s = CHR ''/'' \<and> endsWith (butlast s) ''/'')"
proof (cases s rule: rev_cases)
  case Nil
  then show ?thesis by (simp add: endsWith_iff)
next
  case (snoc ys y)
  have "(\<exists>pre. ys @ [y] = pre @ ''//'') = (y = CHR ''/'' \<and> (\<exists>pre. ys = pre @ ''/''))"
    by (metis append.assoc append_Cons append_Nil butlast_snoc last_snoc)
  with snoc show ?thesis by (simp add: endsWith_iff)
qed

lemma strip_trailing_slash_twice:
  "\<not> endsWith d ''//'' \<Longrightarrow> strip_trailing_slash (strip_trailing_slash d) = strip_trailing_slash d"
  by (auto simp: strip_trailing_slash_def endsWith_two_slashes endsWith_slash)

lemma lower_char_idem: "lower_char (lower_char c) = lower_char c"
  by (auto simp: lower_char_def Let_def)

lemma toLowerCase_idem: "toLowerCase (toLowerCase s) = toLowerCase s"
  by (simp add: toLowerCase_def lower_char_idem)

lemma dropWhile_white_prefix:
  "list_all is_white_space l \<Longrightarrow> dropWhile is_white_space (l @ s) = dropWhile is_white_space s"
  by (induction l) auto

lemma trim_pad_right: "list_all is_white_space r \<Longrightarrow> trim (s @ r) = trim s"
proof (cases "list_all is_white_space s")
  case True
  assume "list_all is_white_space r"
  with True have "dropWhile is_white_space (s @ r) = []" and "dropWhile is_white_space s = []"
    unfolding dropWhile_eq_Nil_conv by (auto simp: list_all_iff)
  then show ?thesis by (simp only: trim_def)
next
  case False
  assume r: "list_all is_white_space r"
  from False have "dropWhile is_white_space (s @ r) = dropWhile is_white_space s @ r"
    by (auto simp: list_all_iff dropWhile_append1)
  moreover from r have "list_all is_white_space (rev r)" by (simp add: list_all_iff)
  ultimately show ?thesis by (simp add: trim_def dropWhile_white_prefix)
qed

lemma trim_pad:
  "list_all is_white_space l \<Longrightarrow> list_all is_white_space r \<Longrightarrow> trim (l @ c @ r) = trim c"
proof -
  assume l: "list_all is_white_space l" and r: "list_all is_white_space r"
  have "trim (l @ c @ r) = trim (c @ r)"
    using l by (simp add: trim_def dropWhile_white_prefix)
  with r show ?thesis by (simp add: trim_pad_right)
qed

section \<open>Facts about normalization and matching\<close>

lemma delete_tracking:
  "foldl searchParams_delete x tracking_params
   = x\<lparr>searchParams := filter (\<lambda>kv. fst kv \<notin> set tracking_params) (searchParams x)\<rparr>"
  by (simp add: tracking_params_def searchParams_delete_def conj_commute conj_left_commute)

lemma normalize_parsed_eq:
  "normalize_parsed x
   = x\<lparr>searchParams := filter (\<lambda>kv. fst kv \<notin> set tracking_params) (searchParams x),
        hash := [],
        pathname := (if pathname x \<noteq> ''/'' \<and> endsWith (pathname x) ''/'' \<and> \<not> opaque_path x
                     then butlast (pathname x) else pathname x),
        host := (if opaque_path x then host x else toLowerCase (host x))\<rparr>"
  by (simp add: normalize_parsed_def delete_tracking Let_def set_hash_def set_pathname_def
      set_host_def)

lemma normalize_parsed_idem:
  "\<not> endsWith (pathname x) ''//'' \<Longrightarrow> normalize_parsed (normalize_parsed x) = normalize_parsed x"
  by (auto simp: normalize_parsed_eq toLowerCase_idem endsWith_two_slashes endsWith_slash)

lemma normalize_parsed_slash:
  "\<not> opaque_path x \<Longrightarrow> pathname x \<noteq> [] \<Longrightarrow>
     pathname x = ''/'' \<or> \<not> endsWith (pathname x) ''/'' \<Longrightarrow>
     normalize_parsed (x\<lparr>pathname := pathname x @ ''/''\<rparr>) = normalize_parsed x"
  by (auto simp: normalize_parsed_eq endsWith_slash)

lemma normalize_parsed_tracking:
  "filter (\<lambda>kv. fst kv \<notin> set tracking_params) q
     = filter (\<lambda>kv. fst kv \<notin> set tracking_params) (searchParams x) \<Longrightarrow>
     normalize_parsed (x\<lparr>searchParams := q\<rparr>) = normalize_parsed x"
  by (simp add: normalize_parsed_eq)

lemma normalize_parsed_cong:
  "new_URL p a = Some x \<Longrightarrow> new_URL p b = Some y \<Longrightarrow> normalize_parsed x = normalize_parsed y \<Longrightarrow>
     normalize p (JStr a) = normalize p (JStr b)"
  by (simp add: normalize_def)

lemma trim_all_append:
  "trim_all (xs @ ys)
   = (case trim_all xs of
        Inl e \<Rightarrow> Inl e
      | Inr a \<Rightarrow> (case trim_all ys of Inl e \<Rightarrow> Inl e | Inr b \<Rightarrow> Inr (a @ b)))"
  by (induction xs rule: trim_all.induct) (auto split: sum.splits)

lemma equalsAnyUrl_cong:
  "map_sum id (filter (\<lambda>t. t \<noteq> [])) (trim_all us) = map_sum id (filter (\<lambda>t. t \<noteq> [])) (trim_all vs)
   \<Longrightarrow> equalsAnyUrl p url us = equalsAnyUrl p url vs"
  by (cases "trim_all us"; cases "trim_all vs") (simp_all add: equalsAnyUrl_def)

lemma equalsAnyUrl_single:
  "trim c = c \<Longrightarrow> c \<noteq> [] \<Longrightarrow>
     equalsAnyUrl p u [JStr c] = Inr (normalize p u = normalize p (JStr c))"
  by (simp add: equalsAnyUrl_def)

lemma trim_all_strings: "trim_all (map JStr xs) = Inr (map trim xs)"
  by (induction xs) simp_all

lemma equalsAnyUrl_strings:
  "equalsAnyUrl p u (map JStr xs) = Inr (normalize p u \<in> candidates p xs)"
  by (auto simp: equalsAnyUrl_def trim_all_strings candidates_def)

lemma candidates_append: "candidates p (xs @ ys) = candidates p xs \<union> candidates p ys"
  by (auto simp: candidates_def)

lemma candidates_self:
  "trim u = u \<Longrightarrow> u \<noteq> [] \<Longrightarrow> u \<in> set xs \<Longrightarrow> normalize p (JStr u) \<in> candidates p xs"
  by (force simp: candidates_def)

lemma mergeUrls_strings:
  "\<exists>added.
     mergeUrls p (map JStr e) (map JStr n) = Inr (map JStr (e @ added))
     \<and> subseq added n
     \<and> (\<forall>i<length added. normalize p (JStr (added ! i)) \<notin> candidates p (e @ take i added))
     \<and> (\<forall>u\<in>set n. trim u = u \<and> u \<noteq> [] \<longrightarrow> normalize p (JStr u) \<in> candidates p (e @ added))
     \<and> (\<forall>u\<in>set n. u \<in> set added \<or> normalize p (JStr u) \<in> candidates p (e @ added))"
proof (induction n arbitrary: e)
  case Nil
  show ?case by (rule exI [of _ "[]"]) simp
next
  case (Cons u us)
  show ?case
  proof (cases "normalize p (JStr u) \<in> candidates p e")
    case True
    from Cons.IH [of e] obtain added where
      a: "mergeUrls p (map JStr e) (map JStr us) = Inr (map JStr (e @ added))"
      and b: "subseq added us"
      and c: "\<forall>i<length added. normalize p (JStr (added ! i)) \<notin> candidates p (e @ take i added)"
      and d: "\<forall>u\<in>set us. trim u = u \<and> u \<noteq> [] \<longrightarrow> normalize p (JStr u) \<in> candidates p (e @ added)"
      and f: "\<forall>u\<in>set us. u \<in> set added \<or> normalize p (JStr u) \<in> candidates p (e @ added)"
      by blast
    have "mergeUrls p (map JStr e) (map JStr (u # us)) = Inr (map JStr (e @ added))"
      using True a by (simp add: equalsAnyUrl_strings)
    moreover have "subseq added (u # us)" using b by (rule list_emb_Cons)
    moreover have "normalize p (JStr u) \<in> candidates p (e @ added)"
      using True by (simp add: candidates_append)
    ultimately show ?thesis using c d f by (intro exI [of _ added]) auto
  next
    case False
    from Cons.IH [of "e @ [u]"] obtain added where
      a: "mergeUrls p (map JStr (e @ [u])) (map JStr us) = Inr (map JStr ((e @ [u]) @ added))"
      and b: "subseq added us"
      and c: "\<forall>i<length added. normalize p (JStr (added ! i)) \<notin> candidates p ((e @ [u]) @ take i added)"
      and d: "\<forall>v\<in>set us. trim v = v \<and> v \<noteq> [] \<longrightarrow> normalize p (JStr v) \<in> candidates p ((e @ [u]) @ added)"
      and f: "\<forall>v\<in>set us. v \<in> set added \<or> normalize p (JStr v) \<in> candidates p ((e @ [u]) @ added)"
      by blast
    have m: "mergeUrls p (map JStr e) (map JStr (u # us)) = Inr (map JStr (e @ (u # added)))"
      using False a by (simp add: equalsAnyUrl_strings)
    have s: "subseq (u # added) (u # us)" using b by simp
    have n: "\<forall>i<length (u # added).
               normalize p (JStr ((u # added) ! i)) \<notin> candidates p (e @ take i (u # added))"
    proof (intro allI impI)
      fix i assume i: "i < length (u # added)"
      show "normalize p (JStr ((u # added) ! i)) \<notin> candidates p (e @ take i (u # added))"
      proof (cases i)
        case 0
        with False show ?thesis by simp
      next
        case (Suc j)
        with i c show ?thesis by simp
      qed
    qed
    have q: "\<forall>v\<in>set (u # us). trim v = v \<and> v \<noteq> [] \<longrightarrow>
               normalize p (JStr v) \<in> candidates p (e @ (u # added))"
      using d by (auto intro: candidates_self)
    have g: "\<forall>v\<in>set (u # us). v \<in> set (u # added)
               \<or> normalize p (JStr v) \<in> candidates p (e @ (u # added))"
      using f by auto
    from m s n q g show ?thesis by (intro exI [of _ "u # added"]) blast
  qed
qed

lemma mergeUrls_snoc:
  "mergeUrls p acc (xs @ [u])
   = (case mergeUrls p acc xs of
        Inl f \<Rightarrow> Inl f
      | Inr m \<Rightarrow>
          (case equalsAnyUrl p u m of
             Inl f \<Rightarrow> Inl f
           | Inr present \<Rightarrow> Inr (if present then m else m @ [u])))"
  by (induction xs arbitrary: acc) (simp_all split: sum.splits)

lemma mergeUrls_step:
  "j < length n \<Longrightarrow>
   \<exists>m. mergeUrls p (map JStr e) (map JStr (take j n)) = Inr (map JStr m)
        \<and> mergeUrls p (map JStr e) (map JStr (take (Suc j) n))
          = Inr (map JStr (if equalsAnyUrl p (JStr (n ! j)) (map JStr m) = Inr True
                           then m else m @ [n ! j]))"
proof -
  assume j: "j < length n"
  from mergeUrls_strings [of p e "take j n"] obtain added where
    a: "mergeUrls p (map JStr e) (map JStr (take j n)) = Inr (map JStr (e @ added))"
    by blast
  have t: "map JStr (take (Suc j) n) = map JStr (take j n) @ [JStr (n ! j)]"
    using j by (simp add: take_Suc_conv_app_nth)
  have "mergeUrls p (map JStr e) (map JStr (take (Suc j) n))
        = Inr (map JStr (if equalsAnyUrl p (JStr (n ! j)) (map JStr (e @ added)) = Inr True
                         then e @ added else (e @ added) @ [n ! j]))"
  proof -
    have "equalsAnyUrl p (JStr (n ! j)) (map JStr (e @ added))
          = Inr (normalize p (JStr (n ! j)) \<in> candidates p (e @ added))"
      by (rule equalsAnyUrl_strings)
    then have "equalsAnyUrl p (JStr (n ! j)) (map JStr e @ map JStr added)
          = Inr (normalize p (JStr (n ! j)) \<in> candidates p (e @ added))"
      by simp
    then show ?thesis unfolding t mergeUrls_snoc a by simp
  qed
  with a show ?thesis by blast
qed

lemma mergeUrls_present:
  "\<forall>u\<in>set n. normalize p (JStr u) \<in> candidates p m \<Longrightarrow>
     mergeUrls p (map JStr m) (map JStr n) = Inr (map JStr m)"
  by (induction n) (simp_all add: equalsAnyUrl_strings)

section \<open>What the engine leaves alone\<close>

lemma markBlocked_blocked:
  "x \<in> blockedMessageIds s \<Longrightarrow> x \<in> blockedMessageIds (markBlocked s i)"
  by (simp add: markBlocked_def)

lemma markBlocked_unblocked [simp]:
  "temporarilyUnblockedMessageIds (markBlocked s i) = temporarilyUnblockedMessageIds s"
  by (simp add: markBlocked_def)

lemma markBlocked_patterns [simp]: "stored_patterns (markBlocked s i) = stored_patterns s"
  by (simp add: markBlocked_def)


lemma shouldBlockEmbed_blocked:
  "x \<in> blockedMessageIds s \<Longrightarrow> x \<in> blockedMessageIds (snd (shouldBlockEmbed p s e m))"
  by (auto simp: shouldBlockEmbed_def shouldBlockEmbed_try_def Let_def markBlocked_blocked
      split: sum.splits if_splits)

lemma keep_attachment_blocked:
  "keep_attachment p s a = Inr (k, s') \<Longrightarrow> x \<in> blockedMessageIds s \<Longrightarrow>
     x \<in> blockedMessageIds s'"
  by (auto simp: keep_attachment_def Let_def markBlocked_blocked
      split: sum.splits if_splits jsval.splits)

lemma keep_attachment_frame:
  "keep_attachment p s a = Inr (k, s') \<Longrightarrow>
     temporarilyUnblockedMessageIds s' = temporarilyUnblockedMessageIds s
     \<and> stored_patterns s' = stored_patterns s"
  by (auto simp: keep_attachment_def Let_def split: sum.splits if_splits jsval.splits)

lemma filter_loop_blocked:
  "filter_loop p s as = Inl (f, s') \<or> filter_loop p s as = Inr (out, s') \<Longrightarrow>
     x \<in> blockedMessageIds s \<Longrightarrow> x \<in> blockedMessageIds s'"
proof (induction as arbitrary: s out)
  case Nil
  then show ?case by simp
next
  case (Cons a as)
  show ?case
  proof (cases "keep_attachment p s a")
    case (Inl e)
    with Cons.prems show ?thesis by simp
  next
    case (Inr r)
    obtain k s1 where r: "r = (k, s1)" by (cases r)
    have x1: "x \<in> blockedMessageIds s1"
      using keep_attachment_blocked Inr r Cons.prems(2) by blast
    show ?thesis
    proof (cases "filter_loop p s1 as")
      case (Inl e)
      with Cons.prems(1) Inr r have "filter_loop p s1 as = Inl (f, s')" by simp
      with Cons.IH x1 show ?thesis by blast
    next
      case (Inr r2)
      obtain out2 s2 where r2: "r2 = (out2, s2)" by (cases r2)
      with Cons.prems(1) \<open>keep_attachment p s a = Inr r\<close> r Inr have "s2 = s'" by simp
      with Cons.IH[of s1 out2] x1 Inr r2 show ?thesis by simp
    qed
  qed
qed

lemma filterAttachments_blocked:
  "x \<in> blockedMessageIds s \<Longrightarrow> x \<in> blockedMessageIds (snd (filterAttachments p s arr))"
  by (auto simp: filterAttachments_def split: attachments_arg.splits sum.splits
      intro: filter_loop_blocked)

lemma toggle_blocked [simp]:
  "blockedMessageIds (toggleTemporaryUnblock s m b) = blockedMessageIds s"
  by (simp add: toggleTemporaryUnblock_def)

lemma addUrls_blocked:
  "addUrlsToBlocklistAndRefresh p s m urls = Inr s' \<Longrightarrow>
     blockedMessageIds s' = blockedMessageIds s"
  by (auto simp: addUrlsToBlocklistAndRefresh_def split: sum.splits)

lemma step_blocked: "x \<in> blockedMessageIds s \<Longrightarrow> x \<in> blockedMessageIds (step p s op)"
  by (cases op) (auto simp: shouldBlockEmbed_blocked filterAttachments_blocked addUrls_blocked
      split: sum.splits)




section \<open>What the engine decides, and when it throws\<close>

lemma fault_is_TypeError: "(f :: fault) = TypeError"
  by (cases f)

lemma trim_all_fault: "(trim_all us = Inl f) = (\<not> list_all is_string us)"
proof -
  have "(trim_all us = Inl TypeError) = (\<not> list_all is_string us)"
    by (induction us rule: trim_all.induct) (auto split: sum.splits)
  then show ?thesis by (simp add: fault_is_TypeError [of f])
qed

lemma equalsAnyUrl_fault: "(equalsAnyUrl p url us = Inl f) = (\<not> list_all is_string us)"
  using trim_all_fault [of us f] by (auto simp: equalsAnyUrl_def split: sum.splits)

lemma equalsAnyStored_fault:
  "(equalsAnyStored p s url = Inl f)
   = (stored_patterns s = None
      \<or> (\<exists>us. stored_patterns s = Some us \<and> \<not> list_all is_string us))"
  by (cases "stored_patterns s")
     (simp_all add: equalsAnyStored_def equalsAnyUrl_fault fault_is_TypeError [of f])

lemma equalsAnyStored_True:
  "(equalsAnyStored p s url = Inr True) = (equalsAnyUrl p url (patterns s) = Inr True)"
  by (cases "stored_patterns s") (simp_all add: equalsAnyStored_def patterns_def equalsAnyUrl_def)

lemma shouldBlockUrl_eq:
  "shouldBlockUrl p s url
   = (truthy url \<and> isGifUrl p url \<and> equalsAnyStored p s url = Inr True)"
  by (auto simp: shouldBlockUrl_def split: sum.splits)

lemma shouldBlockUrl_frame:
  "stored_patterns s' = stored_patterns s \<Longrightarrow> shouldBlockUrl p s' url = shouldBlockUrl p s url"
  by (simp add: shouldBlockUrl_def equalsAnyStored_def)

lemma shouldBlockEmbed_try_eq:
  "shouldBlockEmbed_try p s e m
   = (let url = js_or (js_or (embed_url e) (opt_url (image e))) (opt_url (thumbnail e));
          blocked = (truthy url \<and> (embed_type e = JStr ''gifv'' \<or> isGifUrl p url)
                     \<and> equalsAnyStored p s url = Inr True)
      in if msg_id m \<in> temporarilyUnblockedMessageIds s then Inr (False, s)
         else if embed_type e = JStr ''gifv'' \<and> truthy url
                 \<and> (\<exists>f. equalsAnyStored p s url = Inl f)
         then Inl TypeError
         else Inr (blocked, if blocked then markBlocked s (msg_id m) else s))"
proof (cases "equalsAnyStored p s
               (js_or (js_or (embed_url e) (opt_url (image e))) (opt_url (thumbnail e)))")
  case (Inl f)
  then show ?thesis
    by (simp add: shouldBlockEmbed_try_def Let_def shouldBlockUrl_eq fault_is_TypeError [of f])
next
  case (Inr b)
  then show ?thesis
    by (simp add: shouldBlockEmbed_try_def Let_def shouldBlockUrl_eq)
qed

lemma keep_attachment_eq:
  "keep_attachment p s a
   = (if bypassed s a then Inr (True, s)
      else if no_toLowerCase (content_type a) then Inl TypeError
      else Inr (\<not> shouldBlockUrl p s (attachment_url a),
                if shouldBlockUrl p s (attachment_url a) then markBlocked s (message_id a) else s))"
  by (cases "content_type a")
     (auto simp: keep_attachment_def bypassed_def attachment_url_def Let_def shouldBlockUrl_def)

lemma filter_loop_eq:
  "temporarilyUnblockedMessageIds s = temporarilyUnblockedMessageIds s0 \<Longrightarrow>
   stored_patterns s = stored_patterns s0 \<Longrightarrow>
   list_all (\<lambda>a. bypassed s0 a \<or> \<not> no_toLowerCase (content_type a)) as \<Longrightarrow>
   \<exists>s'. filter_loop p s as
          = Inr (filter (\<lambda>a. bypassed s0 a \<or> \<not> shouldBlockUrl p s0 (attachment_url a)) as, s')"
proof (induction as arbitrary: s)
  case Nil
  show ?case by simp
next
  case (Cons a as)
  have b: "bypassed s a = bypassed s0 a"
    using Cons.prems(1) by (simp add: bypassed_def)
  have u: "shouldBlockUrl p s (attachment_url a) = shouldBlockUrl p s0 (attachment_url a)"
    using Cons.prems(2) by (rule shouldBlockUrl_frame)
  from Cons.prems(3) have ok: "bypassed s0 a \<or> \<not> no_toLowerCase (content_type a)"
    and rest: "list_all (\<lambda>a. bypassed s0 a \<or> \<not> no_toLowerCase (content_type a)) as"
    by simp_all
  obtain s1 where k: "keep_attachment p s a
        = Inr (bypassed s0 a \<or> \<not> shouldBlockUrl p s0 (attachment_url a), s1)"
    using ok b u by (auto simp: keep_attachment_eq)
  have fr: "temporarilyUnblockedMessageIds s1 = temporarilyUnblockedMessageIds s0
            \<and> stored_patterns s1 = stored_patterns s0"
    using keep_attachment_frame [OF k] Cons.prems(1,2) by simp
  from Cons.IH [of s1] fr rest obtain s' where
    "filter_loop p s1 as
       = Inr (filter (\<lambda>a. bypassed s0 a \<or> \<not> shouldBlockUrl p s0 (attachment_url a)) as, s')"
    by blast
  with k show ?case by simp
qed

lemma filter_loop_throws:
  "temporarilyUnblockedMessageIds s = temporarilyUnblockedMessageIds s0 \<Longrightarrow>
   stored_patterns s = stored_patterns s0 \<Longrightarrow>
   \<not> list_all (\<lambda>a. bypassed s0 a \<or> \<not> no_toLowerCase (content_type a)) as \<Longrightarrow>
   \<exists>s'. filter_loop p s as = Inl (TypeError, s')"
proof (induction as arbitrary: s)
  case Nil
  then show ?case by simp
next
  case (Cons a as)
  have b: "bypassed s a = bypassed s0 a"
    using Cons.prems(1) by (simp add: bypassed_def)
  show ?case
  proof (cases "bypassed s0 a \<or> \<not> no_toLowerCase (content_type a)")
    case False
    with b show ?thesis by (simp add: keep_attachment_eq)
  next
    case True
    with b obtain k s1 where k: "keep_attachment p s a = Inr (k, s1)"
      by (auto simp: keep_attachment_eq)
    have fr: "temporarilyUnblockedMessageIds s1 = temporarilyUnblockedMessageIds s0
              \<and> stored_patterns s1 = stored_patterns s0"
      using keep_attachment_frame [OF k] Cons.prems(1,2) by simp
    from True Cons.prems(3)
    have "\<not> list_all (\<lambda>a. bypassed s0 a \<or> \<not> no_toLowerCase (content_type a)) as"
      by simp
    with Cons.IH [of s1] fr obtain s' where "filter_loop p s1 as = Inl (TypeError, s')"
      by blast
    with k show ?thesis by simp
  qed
qed

lemma filterAttachments_eq:
  "fst (filterAttachments p s (Array as))
   = (if list_all (\<lambda>a. bypassed s a \<or> \<not> no_toLowerCase (content_type a)) as
      then Array (filter (\<lambda>a. bypassed s a \<or> \<not> shouldBlockUrl p s (attachment_url a)) as)
      else Array as)"
proof (cases "list_all (\<lambda>a. bypassed s a \<or> \<not> no_toLowerCase (content_type a)) as")
  case True
  with filter_loop_eq [of s s as p] obtain s' where
    "filter_loop p s as
       = Inr (filter (\<lambda>a. bypassed s a \<or> \<not> shouldBlockUrl p s (attachment_url a)) as, s')"
    by blast
  with True show ?thesis by (simp add: filterAttachments_def)
next
  case False
  with filter_loop_throws [of s s as p] obtain s' where "filter_loop p s as = Inl (TypeError, s')"
    by blast
  with False show ?thesis by (simp add: filterAttachments_def)
qed


section \<open>The blocked set only grows\<close>

text \<open>
  C8. BlockedSet is monotonic: whatever sequence of operations a session runs
  (classifying an embed, filtering attachments, reveal, hide again, block these, an
  edit of the patterns), a message id that is in \<open>blockedMessageIds\<close> before the
  sequence is in it afterwards. No operation deletes from the set or clears it.
\<close>

theorem blocked_set_monotonic:
  "x \<in> blockedMessageIds s \<Longrightarrow> x \<in> blockedMessageIds (run p s ops)"
  by (induction ops arbitrary: s) (auto simp: step_blocked)

text \<open>
  The first classification of the session blocks \<open>m1\<close>; the id stays through a reveal,
  an edit that empties the pattern list, a second classification and a hide-again.
\<close>

theorem blocked_set_monotonic_witness:
  "JStr ''m1'' \<in> blockedMessageIds (run web session_start [ClassifyEmbed gifv_embed message_m1])
   \<and> JStr ''m1'' \<in> blockedMessageIds
        (run web (run web session_start [ClassifyEmbed gifv_embed message_m1])
           [Reveal message_m1, EditPatterns [], ClassifyEmbed gifv_embed message_m1,
            HideAgain message_m1])"
proof -
  have h: "JStr ''m1'' \<in> blockedMessageIds (run web session_start [ClassifyEmbed gifv_embed message_m1])"
    by code_simp
  from h blocked_set_monotonic [OF h] show ?thesis
    by (intro conjI)
qed

section \<open>Messages the user chose to show\<close>




section \<open>Embeds of type gifv\<close>

text \<open>
  C3, as stated: a \<open>gifv\<close> embed without \<open>embed.url\<close> is never blocked, whatever
  \<open>image.url\<close> or \<open>thumbnail.url\<close> it carries. The code takes the decision on the
  resolved URL \<open>embed.url || embed.image.url || embed.thumbnail.url\<close>: the embed below
  has no \<open>url\<close>, its image's URL is in the pattern list, and it is blocked.
\<close>

theorem gifv_embed_image_url_counterexample:
  "embed_type gifv_image_embed = JStr ''gifv''
   \<and> embed_url gifv_image_embed = JUndefined
   \<and> msg_id message_m1 \<notin> temporarilyUnblockedMessageIds session_start
   \<and> fst (shouldBlockEmbed web session_start gifv_image_embed message_m1) = True"
  by code_simp

text \<open>
  C3, amended: for every embed of type \<open>gifv\<close> on a message that is not in
  TemporarilyUnblockedSet, \<open>classifyEmbed\<close> blocks exactly when the resolved URL (the
  first of \<open>embed.url\<close>, \<open>image.url\<close>, \<open>thumbnail.url\<close> that is present and not empty)
  exists and \<open>equalsAnyUrl\<close> finds it among the patterns; it returns false when none of
  the three is present.
\<close>

theorem gifv_embed_decision:
  "embed_type e = JStr ''gifv'' \<Longrightarrow> msg_id m \<notin> temporarilyUnblockedMessageIds s \<Longrightarrow>
     fst (shouldBlockEmbed p s e m)
     = (let url = js_or (js_or (embed_url e) (opt_url (image e))) (opt_url (thumbnail e))
        in truthy url \<and> equalsAnyUrl p url (patterns s) = Inr True)"
  by (auto simp: shouldBlockEmbed_def shouldBlockEmbed_try_eq Let_def
      equalsAnyStored_True [symmetric])

theorem gifv_embed_decision_witness:
  "embed_type gifv_image_embed = JStr ''gifv''
   \<and> msg_id message_m1 \<notin> temporarilyUnblockedMessageIds session_start
   \<and> fst (shouldBlockEmbed web session_start gifv_image_embed message_m1)
     = (let url = js_or (js_or (embed_url gifv_image_embed) (opt_url (image gifv_image_embed)))
                    (opt_url (thumbnail gifv_image_embed))
        in truthy url \<and> equalsAnyUrl web url (patterns session_start) = Inr True)
   \<and> js_or (js_or (embed_url gifv_image_embed) (opt_url (image gifv_image_embed)))
                    (opt_url (thumbnail gifv_image_embed)) = JStr ''https://t.co/x.gif''"
proof -
  have t: "embed_type gifv_image_embed = JStr ''gifv''"
    by (simp add: gifv_image_embed_def)
  have n: "msg_id message_m1 \<notin> temporarilyUnblockedMessageIds session_start"
    by (simp add: session_start_def)
  have u: "js_or (js_or (embed_url gifv_image_embed) (opt_url (image gifv_image_embed)))
                    (opt_url (thumbnail gifv_image_embed)) = JStr ''https://t.co/x.gif''"
    by (simp add: gifv_image_embed_def js_or_def opt_url_def)
  from gifv_embed_decision [OF t n, of web] t n u show ?thesis by (intro conjI)
qed

section \<open>Faults\<close>

text \<open>
  C6. No exception leaves \<open>classifyEmbed\<close> or \<open>filterAttachments\<close>: on every input,
  malformed records and pattern lists included, each returns the value given here.
  \<^item> \<open>classifyEmbed\<close> returns true exactly when the message is not revealed, a URL is
    resolved, the embed is GIF-like and \<open>equalsAnyUrl\<close> returns true; it marks the
    message then and changes nothing otherwise. Its \<open>try\<close> block throws exactly when
    the message is not revealed, the embed is of type \<open>gifv\<close> with a URL, and the
    stored patterns are no array or hold an entry that is no string; the answer is
    then false, with the state as it was.
  \<^item> \<open>_shouldBlockUrl\<close> answers an exception of \<open>equalsAnyUrl\<close> by false.
  \<^item> The filter loop throws exactly when an attachment that is not bypassed has a
    \<open>content_type\<close> that is neither nullish nor a string; \<open>filterAttachments\<close> then
    returns the array it was given, and otherwise the attachments that are bypassed
    or not blocked, in their order. An argument that is no array comes back as it is.
\<close>

theorem faults_fail_open:
  "shouldBlockEmbed p s e m
     = (let url = js_or (js_or (embed_url e) (opt_url (image e))) (opt_url (thumbnail e));
            blocked = (msg_id m \<notin> temporarilyUnblockedMessageIds s \<and> truthy url
                       \<and> (embed_type e = JStr ''gifv'' \<or> isGifUrl p url)
                       \<and> equalsAnyStored p s url = Inr True)
        in (blocked, if blocked then markBlocked s (msg_id m) else s))
   \<and> (\<exists>f. shouldBlockEmbed_try p s e m = Inl f)
     = (msg_id m \<notin> temporarilyUnblockedMessageIds s \<and> embed_type e = JStr ''gifv''
        \<and> truthy (js_or (js_or (embed_url e) (opt_url (image e))) (opt_url (thumbnail e)))
        \<and> (stored_patterns s = None
            \<or> (\<exists>us. stored_patterns s = Some us \<and> \<not> list_all is_string us)))
   \<and> (shouldBlockEmbed_try p s e m = Inl f \<longrightarrow> shouldBlockEmbed p s e m = (False, s))
   \<and> (equalsAnyStored p s u = Inl f)
     = (stored_patterns s = None
        \<or> (\<exists>us. stored_patterns s = Some us \<and> \<not> list_all is_string us))
   \<and> shouldBlockUrl p s u = (truthy u \<and> isGifUrl p u \<and> equalsAnyStored p s u = Inr True)
   \<and> (\<exists>f s'. filter_loop p s as = Inl (f, s'))
     = (\<not> list_all (\<lambda>a. bypassed s a \<or> \<not> no_toLowerCase (content_type a)) as)
   \<and> (filter_loop p s as = Inl (f, s') \<longrightarrow> filterAttachments p s (Array as) = (Array as, s'))
   \<and> fst (filterAttachments p s (Array as))
     = (if list_all (\<lambda>a. bypassed s a \<or> \<not> no_toLowerCase (content_type a)) as
        then Array (filter (\<lambda>a. bypassed s a \<or> \<not> shouldBlockUrl p s (attachment_url a)) as)
        else Array as)
   \<and> filterAttachments p s (NotArray v) = (NotArray v, s)"
proof (intro conjI)
  show "shouldBlockEmbed p s e m
     = (let url = js_or (js_or (embed_url e) (opt_url (image e))) (opt_url (thumbnail e));
            blocked = (msg_id m \<notin> temporarilyUnblockedMessageIds s \<and> truthy url
                       \<and> (embed_type e = JStr ''gifv'' \<or> isGifUrl p url)
                       \<and> equalsAnyStored p s url = Inr True)
        in (blocked, if blocked then markBlocked s (msg_id m) else s))"
    by (auto simp: shouldBlockEmbed_def shouldBlockEmbed_try_eq Let_def)
next
  show "(\<exists>f. shouldBlockEmbed_try p s e m = Inl f)
     = (msg_id m \<notin> temporarilyUnblockedMessageIds s \<and> embed_type e = JStr ''gifv''
        \<and> truthy (js_or (js_or (embed_url e) (opt_url (image e))) (opt_url (thumbnail e)))
        \<and> (stored_patterns s = None
            \<or> (\<exists>us. stored_patterns s = Some us \<and> \<not> list_all is_string us)))"
    by (simp add: shouldBlockEmbed_try_eq Let_def equalsAnyStored_fault)
next
  show "shouldBlockEmbed_try p s e m = Inl f \<longrightarrow> shouldBlockEmbed p s e m = (False, s)"
    by (simp add: shouldBlockEmbed_def)
next
  show "(equalsAnyStored p s u = Inl f)
     = (stored_patterns s = None
        \<or> (\<exists>us. stored_patterns s = Some us \<and> \<not> list_all is_string us))"
    by (rule equalsAnyStored_fault)
next
  show "shouldBlockUrl p s u = (truthy u \<and> isGifUrl p u \<and> equalsAnyStored p s u = Inr True)"
    by (rule shouldBlockUrl_eq)
next
  show "(\<exists>f s'. filter_loop p s as = Inl (f, s'))
     = (\<not> list_all (\<lambda>a. bypassed s a \<or> \<not> no_toLowerCase (content_type a)) as)"
  proof (cases "list_all (\<lambda>a. bypassed s a \<or> \<not> no_toLowerCase (content_type a)) as")
    case True
    with filter_loop_eq [of s s as p] show ?thesis by auto
  next
    case False
    with filter_loop_throws [of s s as p] show ?thesis by auto
  qed
next
  show "filter_loop p s as = Inl (f, s') \<longrightarrow> filterAttachments p s (Array as) = (Array as, s')"
    by (simp add: filterAttachments_def)
next
  show "fst (filterAttachments p s (Array as))
     = (if list_all (\<lambda>a. bypassed s a \<or> \<not> no_toLowerCase (content_type a)) as
        then Array (filter (\<lambda>a. bypassed s a \<or> \<not> shouldBlockUrl p s (attachment_url a)) as)
        else Array as)"
    by (rule filterAttachments_eq)
next
  show "filterAttachments p s (NotArray v) = (NotArray v, s)"
    by (simp add: filterAttachments_def)
qed

text \<open>
  A store without a pattern array and a pattern list that holds \<open>null\<close> both make
  \<open>equalsAnyUrl\<close> throw. An attachment with a boolean \<open>content_type\<close> makes the filter
  callback throw, here after the first attachment has been handled and its message
  marked: the array comes back whole.
\<close>

theorem faults_fail_open_witness:
  "shouldBlockEmbed_try web (session_start\<lparr>stored_patterns := None\<rparr>) gifv_embed message_m1
     = Inl TypeError
   \<and> shouldBlockEmbed web (session_start\<lparr>stored_patterns := None\<rparr>) gifv_embed message_m1
       = (False, session_start\<lparr>stored_patterns := None\<rparr>)
   \<and> shouldBlockEmbed_try web (session_start\<lparr>stored_patterns := Some [JNull]\<rparr>) gifv_embed message_m1
       = Inl TypeError
   \<and> shouldBlockEmbed web (session_start\<lparr>stored_patterns := Some [JNull]\<rparr>) gifv_embed message_m1
       = (False, session_start\<lparr>stored_patterns := Some [JNull]\<rparr>)
   \<and> filter_loop web session_start [gif_attachment\<lparr>message_id := JStr ''m1''\<rparr>, malformed_attachment]
       = Inl (TypeError, markBlocked session_start (JStr ''m1''))
   \<and> filterAttachments web session_start
         (Array [gif_attachment\<lparr>message_id := JStr ''m1''\<rparr>, malformed_attachment])
       = (Array [gif_attachment\<lparr>message_id := JStr ''m1''\<rparr>, malformed_attachment],
          markBlocked session_start (JStr ''m1''))"
proof -
  let ?n = "session_start\<lparr>stored_patterns := None\<rparr>"
  let ?j = "session_start\<lparr>stored_patterns := Some [JNull]\<rparr>"
  let ?as = "[gif_attachment\<lparr>message_id := JStr ''m1''\<rparr>, malformed_attachment]"
  have e1: "shouldBlockEmbed_try web ?n gifv_embed message_m1 = Inl TypeError"
    by code_simp
  have e2: "shouldBlockEmbed_try web ?j gifv_embed message_m1 = Inl TypeError"
    by code_simp
  have l: "filter_loop web session_start ?as = Inl (TypeError, markBlocked session_start (JStr ''m1''))"
    by code_simp
  have r1: "shouldBlockEmbed web ?n gifv_embed message_m1 = (False, ?n)"
    by (rule mp [OF conjunct1 [OF conjunct2 [OF conjunct2 [OF faults_fail_open]]] e1])
  have r2: "shouldBlockEmbed web ?j gifv_embed message_m1 = (False, ?j)"
    by (rule mp [OF conjunct1 [OF conjunct2 [OF conjunct2 [OF faults_fail_open]]] e2])
  have r3: "filterAttachments web session_start (Array ?as)
            = (Array ?as, markBlocked session_start (JStr ''m1''))"
    by (rule mp [OF conjunct1 [OF conjunct2 [OF conjunct2 [OF conjunct2 [OF conjunct2
                  [OF conjunct2 [OF conjunct2 [OF faults_fail_open]]]]]]] l])
  show ?thesis
    by (rule conjI [OF e1 conjI [OF r1 conjI [OF e2 conjI [OF r2 conjI [OF l r3]]]]])
qed

section \<open>Attachments without a message id\<close>



section \<open>Which URLs count as GIFs\<close>

text \<open>
  C2, as stated: for a string that parses as a URL, \<open>isGifUrl\<close> is true if and only if
  the path ends with \<open>.gif\<close> or the parameter \<open>animated\<close> is \<open>true\<close>, and the regular
  expression is consulted only when parsing fails. The \<open>return\<close> with the regular
  expression stands after the \<open>try\<close> block, so it is reached whenever neither test on
  the parsed URL has returned: the URL below parses, its path ends with \<open>.png\<close>, it has
  no parameter \<open>animated\<close>, and \<open>isGifUrl\<close> is true because the raw string ends with
  \<open>.gif\<close>.
\<close>

theorem isGifUrl_regex_after_parse_counterexample:
  "new_URL web ''https://x.com/a.png?name=b.gif''
     = Some \<lparr>protocol = ''https:'', host = ''x.com'', pathname = ''/a.png'', opaque_path = False,
              searchParams = [(''name'', ''b.gif'')], hash = []\<rparr>
   \<and> endsWith (toLowerCase ''/a.png'') ''.gif'' = False
   \<and> map_of [(''name'', ''b.gif'')] ''animated'' = None
   \<and> isGifUrl web (JStr ''https://x.com/a.png?name=b.gif'') = True"
  by code_simp

text \<open>
  C2, amended: for every non-empty string that parses as a URL, \<open>isGifUrl\<close> is true if
  and only if the parsed path, in lower case, ends with \<open>.gif\<close>, or the query
  parameter \<open>animated\<close> has the value \<open>true\<close>, or the regular expression
  \<open>/\.gif(?:\?|$)/i\<close> matches the raw string; for a string that does not parse it is the
  regular expression alone. \<open>isGifUrl("https://x.com/a.png")\<close> is false, and so is
  \<open>isGifUrl\<close> of \<open>undefined\<close>, of \<open>null\<close> and of the empty string.
\<close>

theorem isGifUrl_parsed:
  "(s \<noteq> [] \<and> new_URL p s = Some u \<longrightarrow>
      isGifUrl p (JStr s)
      = (endsWith (toLowerCase (pathname u)) ''.gif''
         \<or> searchParams_get u ''animated'' = Some ''true''
         \<or> gif_regex_test s))
   \<and> (new_URL p s = None \<longrightarrow> isGifUrl p (JStr s) = gif_regex_test s)
   \<and> isGifUrl web (JStr ''https://x.com/a.png'') = False
   \<and> isGifUrl p JUndefined = False \<and> isGifUrl p JNull = False \<and> isGifUrl p (JStr []) = False"
proof (intro conjI impI)
  show "isGifUrl web (JStr ''https://x.com/a.png'') = False" by code_simp
next
  assume "new_URL p s = None"
  then show "isGifUrl p (JStr s) = gif_regex_test s"
    by (cases s) (simp_all add: isGifUrl_def)
qed (auto simp: isGifUrl_def)

theorem isGifUrl_parsed_witness:
  "''https://x.com/a.GIF'' \<noteq> []
   \<and> new_URL web ''https://x.com/a.GIF''
       = Some \<lparr>protocol = ''https:'', host = ''x.com'', pathname = ''/a.GIF'', opaque_path = False,
              searchParams = [], hash = []\<rparr>
   \<and> isGifUrl web (JStr ''https://x.com/a.GIF'') = True
   \<and> new_URL web ''a.gif?x'' = None
   \<and> isGifUrl web (JStr ''a.gif?x'') = True"
proof -
  let ?u = "\<lparr>protocol = ''https:'', host = ''x.com'', pathname = ''/a.GIF'', opaque_path = False,
              searchParams = [], hash = []\<rparr>"
  have a: "new_URL web ''https://x.com/a.GIF'' = Some ?u" by code_simp
  have b: "endsWith (toLowerCase (pathname ?u)) ''.gif''" by code_simp
  have c: "new_URL web ''a.gif?x'' = None" by code_simp
  have d: "gif_regex_test ''a.gif?x''" by simp
  from isGifUrl_parsed [of "''https://x.com/a.GIF''" web ?u]
       isGifUrl_parsed [of "''a.gif?x''" web] a b c d
  show ?thesis by simp
qed

section \<open>Normalizing twice\<close>

text \<open>
  C5, as stated: \<open>normalize(normalize(u)) = normalize(u)\<close> for every string, the ones
  on the fallback path included. The fallback removes one slash from the end, the
  parsed path loses one slash as well: \<open>a//\<close> does not parse, normalizes to \<open>a/\<close>, and
  that normalizes to \<open>a\<close>.
\<close>

theorem normalize_not_idempotent_counterexample:
  "normalize web (JStr ''a//'') = JStr ''a/''
   \<and> normalize web (normalize web (JStr ''a//'')) = JStr ''a''"
  by code_simp

text \<open>
  C5, amended: \<open>normalize(normalize(u)) = normalize(u)\<close> holds for a string \<open>u\<close>
  \<^item> that parses as a URL whose path does not end in two slashes, when the platform
    parses the serialized normal form back to the same components;
  \<^item> that does not parse and on which \<open>decodeURI\<close> throws (the result is \<open>u\<close> itself);
  \<^item> that does not parse and whose decoded form \<open>d\<close> does not end in two slashes, when
    \<open>d\<close> without its last slash does not parse either and \<open>decodeURI\<close> leaves it as
    it is (as it does with a string without a percent sign).
\<close>

theorem normalize_idempotent:
  "(new_URL p u = Some x \<and> \<not> endsWith (pathname x) ''//''
      \<and> new_URL p (toString p (normalize_parsed x)) = Some (normalize_parsed x)
    \<longrightarrow> normalize p (normalize p (JStr u)) = normalize p (JStr u))
   \<and> (new_URL p u = None \<and> decodeURI p u = None
    \<longrightarrow> normalize p (normalize p (JStr u)) = normalize p (JStr u))
   \<and> (new_URL p u = None \<and> decodeURI p u = Some d \<and> \<not> endsWith d ''//''
      \<and> new_URL p (strip_trailing_slash d) = None
      \<and> decodeURI p (strip_trailing_slash d) = Some (strip_trailing_slash d)
    \<longrightarrow> normalize p (normalize p (JStr u)) = normalize p (JStr u))"
  by (simp add: normalize_def normalize_parsed_idem strip_trailing_slash_twice)

theorem normalize_idempotent_witness:
  "(new_URL web ''https://EX.com/a/?utm_source=x#f''
      = Some \<lparr>protocol = ''https:'', host = ''ex.com'', pathname = ''/a/'', opaque_path = False,
               searchParams = [(''utm_source'', ''x'')], hash = ''#f''\<rparr>
    \<and> normalize web (JStr ''https://EX.com/a/?utm_source=x#f'') = JStr ''https://ex.com/a''
    \<and> normalize web (normalize web (JStr ''https://EX.com/a/?utm_source=x#f''))
        = normalize web (JStr ''https://EX.com/a/?utm_source=x#f''))
   \<and> (new_URL web ''%zz'' = None \<and> decodeURI web ''%zz'' = None
    \<and> normalize web (normalize web (JStr ''%zz'')) = normalize web (JStr ''%zz''))
   \<and> (new_URL web ''a/'' = None \<and> decodeURI web ''a/'' = Some ''a/''
    \<and> normalize web (JStr ''a/'') = JStr ''a''
    \<and> normalize web (normalize web (JStr ''a/'')) = normalize web (JStr ''a/''))"
proof -
  let ?x = "\<lparr>protocol = ''https:'', host = ''ex.com'', pathname = ''/a/'', opaque_path = False,
               searchParams = [(''utm_source'', ''x'')], hash = ''#f''\<rparr>"
  have a1: "new_URL web ''https://EX.com/a/?utm_source=x#f'' = Some ?x" by code_simp
  have a2: "\<not> endsWith (pathname ?x) ''//''" by code_simp
  have a3: "new_URL web (toString web (normalize_parsed ?x)) = Some (normalize_parsed ?x)"
    by code_simp
  have a4: "normalize web (JStr ''https://EX.com/a/?utm_source=x#f'') = JStr ''https://ex.com/a''"
    by code_simp
  have a: "normalize web (normalize web (JStr ''https://EX.com/a/?utm_source=x#f''))
        = normalize web (JStr ''https://EX.com/a/?utm_source=x#f'')"
    by (rule mp [OF conjunct1 [OF normalize_idempotent] conjI [OF a1 conjI [OF a2 a3]]])
  have b1: "new_URL web ''%zz'' = None" by code_simp
  have b2: "decodeURI web ''%zz'' = None" by code_simp
  have b: "normalize web (normalize web (JStr ''%zz'')) = normalize web (JStr ''%zz'')"
    by (rule mp [OF conjunct1 [OF conjunct2 [OF normalize_idempotent]] conjI [OF b1 b2]])
  have c1: "new_URL web ''a/'' = None" by code_simp
  have c2: "decodeURI web ''a/'' = Some ''a/''" by code_simp
  have c3: "\<not> endsWith ''a/'' ''//''" by code_simp
  have c4: "new_URL web (strip_trailing_slash ''a/'') = None" by code_simp
  have c5: "decodeURI web (strip_trailing_slash ''a/'') = Some (strip_trailing_slash ''a/'')"
    by code_simp
  have c6: "normalize web (JStr ''a/'') = JStr ''a''" by code_simp
  have c: "normalize web (normalize web (JStr ''a/'')) = normalize web (JStr ''a/'')"
    by (rule mp [OF conjunct2 [OF conjunct2 [OF normalize_idempotent]]
                    conjI [OF c1 conjI [OF c2 conjI [OF c3 conjI [OF c4 c5]]]]])
  show ?thesis
    by (rule conjI [OF conjI [OF a1 conjI [OF a4 a]]
               conjI [OF conjI [OF b1 conjI [OF b2 b]] conjI [OF c1 conjI [OF c2 conjI [OF c6 c]]]]])
qed

section \<open>Candidates are trimmed, the target is not\<close>

text \<open>
  C10. \<open>equalsAnyUrl\<close> trims the candidates and never the target: white space added
  around any candidate changes no result, nor does an empty string put among the
  candidates; but there is a string \<open>u\<close> with \<open>equalsAnyUrl(u, [u])\<close> true and
  \<open>equalsAnyUrl(" " + u, [u])\<close> false.
\<close>

theorem candidates_are_trimmed:
  "(list_all is_white_space l \<and> list_all is_white_space r \<longrightarrow>
      equalsAnyUrl p url (xs @ [JStr (l @ c @ r)] @ ys) = equalsAnyUrl p url (xs @ [JStr c] @ ys))
   \<and> equalsAnyUrl p url (xs @ [JStr []] @ ys) = equalsAnyUrl p url (xs @ ys)
   \<and> (\<exists>u. equalsAnyUrl web (JStr u) [JStr u] = Inr True
          \<and> equalsAnyUrl web (JStr ('' '' @ u)) [JStr u] = Inr False)"
proof (intro conjI impI)
  assume "list_all is_white_space l \<and> list_all is_white_space r"
  then have "trim (l @ c @ r) = trim c" by (simp add: trim_pad)
  then show "equalsAnyUrl p url (xs @ [JStr (l @ c @ r)] @ ys) = equalsAnyUrl p url (xs @ [JStr c] @ ys)"
    by (intro equalsAnyUrl_cong) (simp add: trim_all_append split: sum.splits)
next
  have "trim [] = []" by (simp add: trim_def)
  then show "equalsAnyUrl p url (xs @ [JStr []] @ ys) = equalsAnyUrl p url (xs @ ys)"
    by (intro equalsAnyUrl_cong) (simp add: trim_all_append split: sum.splits)
next
  have "equalsAnyUrl web (JStr ''a.gif'') [JStr ''a.gif''] = Inr True
        \<and> equalsAnyUrl web (JStr ('' '' @ ''a.gif'')) [JStr ''a.gif''] = Inr False"
    by code_simp
  then show "\<exists>u. equalsAnyUrl web (JStr u) [JStr u] = Inr True
          \<and> equalsAnyUrl web (JStr ('' '' @ u)) [JStr u] = Inr False"
    by (rule exI [of _ "''a.gif''"])
qed

theorem candidates_are_trimmed_witness:
  "(list_all is_white_space '' '' \<and> list_all is_white_space [CHR 0x09, CHR 0x0A])
   \<and> equalsAnyUrl web (JStr ''https://t.co/x.gif'')
        ([JStr ''b''] @ [JStr ('' '' @ ''https://t.co/x.gif'' @ [CHR 0x09, CHR 0x0A])] @ [])
     = equalsAnyUrl web (JStr ''https://t.co/x.gif'') ([JStr ''b''] @ [JStr ''https://t.co/x.gif''] @ [])
   \<and> equalsAnyUrl web (JStr ''https://t.co/x.gif'') ([JStr ''b''] @ [JStr ''https://t.co/x.gif''] @ [])
     = Inr True"
proof -
  have h: "list_all is_white_space '' '' \<and> list_all is_white_space [CHR 0x09, CHR 0x0A]"
    by (simp add: is_white_space_def)
  have r: "equalsAnyUrl web (JStr ''https://t.co/x.gif'') ([JStr ''b''] @ [JStr ''https://t.co/x.gif''] @ [])
     = Inr True"
    by code_simp
  have e: "equalsAnyUrl web (JStr ''https://t.co/x.gif'')
        ([JStr ''b''] @ [JStr ('' '' @ ''https://t.co/x.gif'' @ [CHR 0x09, CHR 0x0A])] @ [])
     = equalsAnyUrl web (JStr ''https://t.co/x.gif'') ([JStr ''b''] @ [JStr ''https://t.co/x.gif''] @ [])"
    by (rule mp [OF conjunct1 [OF candidates_are_trimmed] h])
  show ?thesis by (rule conjI [OF h conjI [OF e r]])
qed

section \<open>Merging URLs into the pattern list\<close>

text \<open>
  C4, as stated: merging the same URLs a second time adds nothing, for every list of
  new URLs. A URL is looked up as it is but stored candidates are trimmed, so a string
  with a space in front of it never matches its own stored copy: the second merge of
  \<open>" a.gif"\<close> adds it again.
\<close>

theorem mergeUrls_not_idempotent_counterexample:
  "mergeUrls web [] [JStr '' a.gif''] = Inr [JStr '' a.gif'']
   \<and> mergeUrls web [JStr '' a.gif''] [JStr '' a.gif''] = Inr [JStr '' a.gif'', JStr '' a.gif'']"
  by code_simp

text \<open>
  C4, amended: \<open>mergeUrls(existing, newUrls)\<close> goes through the new URLs in order and
  appends each one exactly when it is absent, under normalized equality, from the list
  as it stands when the URL is reached. So it returns \<open>existing\<close> followed by some of
  the new URLs in the order they came in (\<open>subseq\<close>), and every new URL is either among
  the appended ones or matched by the result. When no new URL is empty or has white
  space around it, merging \<open>newUrls\<close> into the result once more returns the result
  unchanged.
\<close>

theorem mergeUrls_dedup:
  "(\<exists>added.
     mergeUrls p (map JStr existing) (map JStr newUrls) = Inr (map JStr (existing @ added))
     \<and> subseq added newUrls
     \<and> (\<forall>i<length added.
           equalsAnyUrl p (JStr (added ! i)) (map JStr (existing @ take i added)) = Inr False)
     \<and> (list_all (\<lambda>u. trim u = u \<and> u \<noteq> []) newUrls \<longrightarrow>
           mergeUrls p (map JStr (existing @ added)) (map JStr newUrls)
           = Inr (map JStr (existing @ added)))
     \<and> (\<forall>u\<in>set newUrls.
           u \<in> set added
           \<or> equalsAnyUrl p (JStr u) (map JStr (existing @ added)) = Inr True))
   \<and> mergeUrls p (map JStr existing) [] = Inr (map JStr existing)
   \<and> (\<forall>j<length newUrls.
         \<exists>m. mergeUrls p (map JStr existing) (map JStr (take j newUrls)) = Inr (map JStr m)
              \<and> mergeUrls p (map JStr existing) (map JStr (take (Suc j) newUrls))
                = Inr (map JStr (if equalsAnyUrl p (JStr (newUrls ! j)) (map JStr m) = Inr True
                                 then m else m @ [newUrls ! j])))"
proof (intro conjI)
  from mergeUrls_strings [of p existing newUrls] obtain added where
    a: "mergeUrls p (map JStr existing) (map JStr newUrls) = Inr (map JStr (existing @ added))"
    and b: "subseq added newUrls"
    and c: "\<forall>i<length added. normalize p (JStr (added ! i)) \<notin> candidates p (existing @ take i added)"
    and d: "\<forall>u\<in>set newUrls. trim u = u \<and> u \<noteq> [] \<longrightarrow> normalize p (JStr u) \<in> candidates p (existing @ added)"
    and f: "\<forall>u\<in>set newUrls. u \<in> set added \<or> normalize p (JStr u) \<in> candidates p (existing @ added)"
    by blast
  have c': "\<forall>i<length added.
           equalsAnyUrl p (JStr (added ! i)) (map JStr (existing @ take i added)) = Inr False"
    using c by (simp add: equalsAnyUrl_strings del: map_append)
  have d': "list_all (\<lambda>u. trim u = u \<and> u \<noteq> []) newUrls \<longrightarrow>
           mergeUrls p (map JStr (existing @ added)) (map JStr newUrls)
           = Inr (map JStr (existing @ added))"
  proof
    assume "list_all (\<lambda>u. trim u = u \<and> u \<noteq> []) newUrls"
    with d have "\<forall>u\<in>set newUrls. normalize p (JStr u) \<in> candidates p (existing @ added)"
      by (simp add: list_all_iff)
    then show "mergeUrls p (map JStr (existing @ added)) (map JStr newUrls)
           = Inr (map JStr (existing @ added))"
      by (rule mergeUrls_present)
  qed
  have f': "\<forall>u\<in>set newUrls.
           u \<in> set added
           \<or> equalsAnyUrl p (JStr u) (map JStr (existing @ added)) = Inr True"
    using f by (simp add: equalsAnyUrl_strings del: map_append)
  from a b c' d' f' show "\<exists>added.
     mergeUrls p (map JStr existing) (map JStr newUrls) = Inr (map JStr (existing @ added))
     \<and> subseq added newUrls
     \<and> (\<forall>i<length added.
           equalsAnyUrl p (JStr (added ! i)) (map JStr (existing @ take i added)) = Inr False)
     \<and> (list_all (\<lambda>u. trim u = u \<and> u \<noteq> []) newUrls \<longrightarrow>
           mergeUrls p (map JStr (existing @ added)) (map JStr newUrls)
           = Inr (map JStr (existing @ added)))
     \<and> (\<forall>u\<in>set newUrls.
           u \<in> set added
           \<or> equalsAnyUrl p (JStr u) (map JStr (existing @ added)) = Inr True)"
    by (intro exI [of _ added] conjI)
next
  show "mergeUrls p (map JStr existing) [] = Inr (map JStr existing)" by simp
next
  show "\<forall>j<length newUrls.
         \<exists>m. mergeUrls p (map JStr existing) (map JStr (take j newUrls)) = Inr (map JStr m)
              \<and> mergeUrls p (map JStr existing) (map JStr (take (Suc j) newUrls))
                = Inr (map JStr (if equalsAnyUrl p (JStr (newUrls ! j)) (map JStr m) = Inr True
                                 then m else m @ [newUrls ! j]))"
    by (intro allI impI) (rule mergeUrls_step)
qed

text \<open>
  \<open>mergeUrls(["a"], ["a", "b"])\<close> is \<open>["a", "b"]\<close>: \<open>a\<close> is found, \<open>b\<close> is absent and
  appended, and a second merge adds nothing.
\<close>

theorem mergeUrls_dedup_witness:
  "list_all (\<lambda>u. trim u = u \<and> u \<noteq> []) [''a'', ''b'']
   \<and> mergeUrls web (map JStr [''a'']) (map JStr [''a'', ''b'']) = Inr (map JStr [''a'', ''b''])
   \<and> (\<exists>added.
         mergeUrls web (map JStr [''a'']) (map JStr [''a'', ''b'']) = Inr (map JStr ([''a''] @ added))
         \<and> subseq added [''a'', ''b'']
         \<and> mergeUrls web (map JStr ([''a''] @ added)) (map JStr [''a'', ''b''])
           = Inr (map JStr ([''a''] @ added)))
   \<and> (1::nat) < length [''a'', ''b'']
   \<and> (\<exists>m. mergeUrls web (map JStr [''a'']) (map JStr (take 1 [''a'', ''b''])) = Inr (map JStr m)
            \<and> equalsAnyUrl web (JStr ''b'') (map JStr m) = Inr False
            \<and> mergeUrls web (map JStr [''a'']) (map JStr (take (Suc 1) [''a'', ''b'']))
              = Inr (map JStr (m @ [''b''])))"
proof -
  note t = mergeUrls_dedup [of web "[''a'']" "[''a'', ''b'']"]
  have h: "list_all (\<lambda>u. trim u = u \<and> u \<noteq> []) [''a'', ''b'']"
    by (simp add: trim_def is_white_space_def)
  have r: "mergeUrls web (map JStr [''a'']) (map JStr [''a'', ''b'']) = Inr (map JStr [''a'', ''b''])"
    by code_simp
  from conjunct1 [OF t] obtain added where
    a: "mergeUrls web (map JStr [''a'']) (map JStr [''a'', ''b'']) = Inr (map JStr ([''a''] @ added))"
    and b: "subseq added [''a'', ''b'']"
    and d: "list_all (\<lambda>u. trim u = u \<and> u \<noteq> []) [''a'', ''b''] \<longrightarrow>
           mergeUrls web (map JStr ([''a''] @ added)) (map JStr [''a'', ''b''])
           = Inr (map JStr ([''a''] @ added))"
    by (elim exE conjE)
  from d h have i: "mergeUrls web (map JStr ([''a''] @ added)) (map JStr [''a'', ''b''])
           = Inr (map JStr ([''a''] @ added))"
    by (rule mp)
  have x: "\<exists>added.
         mergeUrls web (map JStr [''a'']) (map JStr [''a'', ''b'']) = Inr (map JStr ([''a''] @ added))
         \<and> subseq added [''a'', ''b'']
         \<and> mergeUrls web (map JStr ([''a''] @ added)) (map JStr [''a'', ''b''])
           = Inr (map JStr ([''a''] @ added))"
    by (rule exI [of _ added]) (rule conjI [OF a conjI [OF b i]])
  have l: "(1::nat) < length [''a'', ''b'']" by simp
  from conjunct2 [OF conjunct2 [OF t]] l obtain m where
    m1: "mergeUrls web (map JStr [''a'']) (map JStr (take 1 [''a'', ''b''])) = Inr (map JStr m)"
    and m2: "mergeUrls web (map JStr [''a'']) (map JStr (take (Suc 1) [''a'', ''b'']))
            = Inr (map JStr (if equalsAnyUrl web (JStr ([''a'', ''b''] ! 1)) (map JStr m) = Inr True
                             then m else m @ [[''a'', ''b''] ! 1]))"
    by blast
  have "mergeUrls web (map JStr [''a'']) (map JStr (take 1 [''a'', ''b''])) = Inr [JStr ''a'']"
    by code_simp
  with m1 [symmetric] have "(Inr (map JStr m) :: fault + jsval list) = Inr [JStr ''a'']"
    by (rule trans)
  then have m: "m = [''a'']" by (auto simp: map_eq_Cons_conv)
  have q: "equalsAnyUrl web (JStr ''b'') (map JStr [''a'']) = Inr False" by code_simp
  from m m2 q have m3: "mergeUrls web (map JStr [''a'']) (map JStr (take (Suc 1) [''a'', ''b'']))
              = Inr (map JStr (m @ [''b'']))"
    by simp
  from m q have q': "equalsAnyUrl web (JStr ''b'') (map JStr m) = Inr False" by simp
  have y: "\<exists>m. mergeUrls web (map JStr [''a'']) (map JStr (take 1 [''a'', ''b''])) = Inr (map JStr m)
            \<and> equalsAnyUrl web (JStr ''b'') (map JStr m) = Inr False
            \<and> mergeUrls web (map JStr [''a'']) (map JStr (take (Suc 1) [''a'', ''b'']))
              = Inr (map JStr (m @ [''b'']))"
    by (rule exI [of _ m]) (rule conjI [OF m1 conjI [OF q' m3]])
  show ?thesis by (rule conjI [OF h conjI [OF r conjI [OF x conjI [OF l y]]]])
qed

section \<open>What equalsAnyUrl does not tell apart\<close>

text \<open>
  C7, as stated: \<open>equalsAnyUrl(u, [u'])\<close> is true whenever \<open>u'\<close> differs from \<open>u\<close> only
  by one slash at the end of the path. Normalization removes one slash from each side:
  when the path of \<open>u\<close> ends in a slash already, \<open>u\<close> and \<open>u\<close> with one more slash
  normalize to different strings.
\<close>

theorem trailing_slash_counterexample:
  "new_URL web ''https://x.com/a/''
     = Some \<lparr>protocol = ''https:'', host = ''x.com'', pathname = ''/a/'', opaque_path = False,
              searchParams = [], hash = []\<rparr>
   \<and> new_URL web (''https://x.com/a/'' @ ''/'')
     = Some \<lparr>protocol = ''https:'', host = ''x.com'', pathname = ''/a/'' @ ''/'', opaque_path = False,
              searchParams = [], hash = []\<rparr>
   \<and> equalsAnyUrl web (JStr ''https://x.com/a/'') [JStr (''https://x.com/a/'' @ ''/'')] = Inr False"
  by code_simp

text \<open>
  C7, amended: \<open>equalsAnyUrl(u, [u])\<close> is true for every non-empty string without white
  space around it, so for every well-formed URL. For two such strings that parse,
  \<open>equalsAnyUrl(u, [u'])\<close> and \<open>equalsAnyUrl(u', [u])\<close> are true when the parsed URLs
  differ only by one slash at the end of a path that is hierarchical, not empty and
  does not end in a slash already (the path \<open>/\<close> apart), or only in query parameters
  named \<open>utm_source\<close>, \<open>utm_medium\<close>, \<open>utm_campaign\<close>, \<open>utm_content\<close> or \<open>utm_term\<close>.
\<close>

theorem equalsAnyUrl_insensitive:
  "(s \<noteq> [] \<and> trim s = s \<longrightarrow> equalsAnyUrl p (JStr s) [JStr s] = Inr True)
   \<and> (u \<noteq> [] \<and> trim u = u \<and> u' \<noteq> [] \<and> trim u' = u'
       \<and> new_URL p u = Some x \<and> new_URL p u' = Some (x\<lparr>pathname := pathname x @ ''/''\<rparr>)
       \<and> \<not> opaque_path x \<and> pathname x \<noteq> []
       \<and> (pathname x = ''/'' \<or> \<not> endsWith (pathname x) ''/'')
      \<longrightarrow> equalsAnyUrl p (JStr u) [JStr u'] = Inr True
          \<and> equalsAnyUrl p (JStr u') [JStr u] = Inr True)
   \<and> (u \<noteq> [] \<and> trim u = u \<and> u' \<noteq> [] \<and> trim u' = u'
       \<and> new_URL p u = Some x \<and> new_URL p u' = Some (x\<lparr>searchParams := q\<rparr>)
       \<and> filter (\<lambda>kv. fst kv \<notin> set tracking_params) q
           = filter (\<lambda>kv. fst kv \<notin> set tracking_params) (searchParams x)
      \<longrightarrow> equalsAnyUrl p (JStr u) [JStr u'] = Inr True
          \<and> equalsAnyUrl p (JStr u') [JStr u] = Inr True)"
proof (intro conjI impI)
  assume "s \<noteq> [] \<and> trim s = s"
  then show "equalsAnyUrl p (JStr s) [JStr s] = Inr True"
    by (simp add: equalsAnyUrl_single)
next
  assume a: "u \<noteq> [] \<and> trim u = u \<and> u' \<noteq> [] \<and> trim u' = u'
       \<and> new_URL p u = Some x \<and> new_URL p u' = Some (x\<lparr>pathname := pathname x @ ''/''\<rparr>)
       \<and> \<not> opaque_path x \<and> pathname x \<noteq> []
       \<and> (pathname x = ''/'' \<or> \<not> endsWith (pathname x) ''/'')"
  then have n: "normalize_parsed (x\<lparr>pathname := pathname x @ ''/''\<rparr>) = normalize_parsed x"
    by (intro normalize_parsed_slash) simp_all
  from a have pu: "new_URL p u = Some x"
    and pu': "new_URL p u' = Some (x\<lparr>pathname := pathname x @ ''/''\<rparr>)"
    by simp_all
  have e: "normalize p (JStr u') = normalize p (JStr u)"
    by (rule normalize_parsed_cong [OF pu' pu n])
  from a e show "equalsAnyUrl p (JStr u) [JStr u'] = Inr True"
    by (simp add: equalsAnyUrl_single)
  from a e show "equalsAnyUrl p (JStr u') [JStr u] = Inr True"
    by (simp add: equalsAnyUrl_single)
next
  assume a: "u \<noteq> [] \<and> trim u = u \<and> u' \<noteq> [] \<and> trim u' = u'
       \<and> new_URL p u = Some x \<and> new_URL p u' = Some (x\<lparr>searchParams := q\<rparr>)
       \<and> filter (\<lambda>kv. fst kv \<notin> set tracking_params) q
           = filter (\<lambda>kv. fst kv \<notin> set tracking_params) (searchParams x)"
  then have n: "normalize_parsed (x\<lparr>searchParams := q\<rparr>) = normalize_parsed x"
    by (intro normalize_parsed_tracking) simp
  from a have pu: "new_URL p u = Some x" and pu': "new_URL p u' = Some (x\<lparr>searchParams := q\<rparr>)"
    by simp_all
  have e: "normalize p (JStr u') = normalize p (JStr u)"
    by (rule normalize_parsed_cong [OF pu' pu n])
  from a e show "equalsAnyUrl p (JStr u) [JStr u'] = Inr True"
    by (simp add: equalsAnyUrl_single)
  from a e show "equalsAnyUrl p (JStr u') [JStr u] = Inr True"
    by (simp add: equalsAnyUrl_single)
qed

theorem equalsAnyUrl_insensitive_witness:
  "equalsAnyUrl web (JStr ''https://x.com/a'') [JStr ''https://x.com/a''] = Inr True
   \<and> new_URL web ''https://x.com/a''
       = Some \<lparr>protocol = ''https:'', host = ''x.com'', pathname = ''/a'', opaque_path = False,
                searchParams = [], hash = []\<rparr>
   \<and> new_URL web ''https://x.com/a/''
       = Some \<lparr>protocol = ''https:'', host = ''x.com'', pathname = ''/a/'', opaque_path = False,
                searchParams = [], hash = []\<rparr>
   \<and> equalsAnyUrl web (JStr ''https://x.com/a'') [JStr ''https://x.com/a/''] = Inr True
   \<and> equalsAnyUrl web (JStr ''https://x.com/a/'') [JStr ''https://x.com/a''] = Inr True
   \<and> new_URL web ''https://x.com/a?utm_source=n&utm_term=t''
       = Some \<lparr>protocol = ''https:'', host = ''x.com'', pathname = ''/a'', opaque_path = False,
                searchParams = [(''utm_source'', ''n''), (''utm_term'', ''t'')], hash = []\<rparr>
   \<and> equalsAnyUrl web (JStr ''https://x.com/a'') [JStr ''https://x.com/a?utm_source=n&utm_term=t'']
       = Inr True
   \<and> equalsAnyUrl web (JStr ''https://x.com/a?utm_source=n&utm_term=t'') [JStr ''https://x.com/a'']
       = Inr True"
proof -
  let ?x = "\<lparr>protocol = ''https:'', host = ''x.com'', pathname = ''/a'', opaque_path = False,
                searchParams = [], hash = []\<rparr>"
  let ?q = "[(''utm_source'', ''n''), (''utm_term'', ''t'')]"
  note t = equalsAnyUrl_insensitive
             [of "''https://x.com/a''" web "''https://x.com/a''" "''https://x.com/a/''" ?x]
  note t' = equalsAnyUrl_insensitive
             [of "''https://x.com/a''" web "''https://x.com/a''"
                 "''https://x.com/a?utm_source=n&utm_term=t''" ?x ?q]
  have w: "''https://x.com/a'' \<noteq> [] \<and> trim ''https://x.com/a'' = ''https://x.com/a''"
    by (simp add: trim_def is_white_space_def)
  have w1: "''https://x.com/a/'' \<noteq> [] \<and> trim ''https://x.com/a/'' = ''https://x.com/a/''"
    by (simp add: trim_def is_white_space_def)
  have w2: "''https://x.com/a?utm_source=n&utm_term=t'' \<noteq> []
            \<and> trim ''https://x.com/a?utm_source=n&utm_term=t'' = ''https://x.com/a?utm_source=n&utm_term=t''"
    by (simp add: trim_def is_white_space_def)
  have p0: "new_URL web ''https://x.com/a'' = Some ?x" by code_simp
  have p1: "new_URL web ''https://x.com/a/'' = Some (?x\<lparr>pathname := pathname ?x @ ''/''\<rparr>)"
    by code_simp
  have p2: "new_URL web ''https://x.com/a?utm_source=n&utm_term=t'' = Some (?x\<lparr>searchParams := ?q\<rparr>)"
    by code_simp
  have c1: "\<not> opaque_path ?x \<and> pathname ?x \<noteq> []
            \<and> (pathname ?x = ''/'' \<or> \<not> endsWith (pathname ?x) ''/'')"
    by (simp add: endsWith_def)
  have c2: "filter (\<lambda>kv. fst kv \<notin> set tracking_params) ?q
            = filter (\<lambda>kv. fst kv \<notin> set tracking_params) (searchParams ?x)"
    by (simp add: tracking_params_def)
  have r0: "equalsAnyUrl web (JStr ''https://x.com/a'') [JStr ''https://x.com/a''] = Inr True"
    using t w by blast
  have r1: "equalsAnyUrl web (JStr ''https://x.com/a'') [JStr ''https://x.com/a/''] = Inr True
            \<and> equalsAnyUrl web (JStr ''https://x.com/a/'') [JStr ''https://x.com/a''] = Inr True"
    using t w w1 p0 p1 c1 by blast
  have r2: "equalsAnyUrl web (JStr ''https://x.com/a'') [JStr ''https://x.com/a?utm_source=n&utm_term=t''] = Inr True
            \<and> equalsAnyUrl web (JStr ''https://x.com/a?utm_source=n&utm_term=t'') [JStr ''https://x.com/a''] = Inr True"
    using t' w w2 p0 p2 c2 by blast
  have p1': "new_URL web ''https://x.com/a/''
       = Some \<lparr>protocol = ''https:'', host = ''x.com'', pathname = ''/a/'', opaque_path = False,
                searchParams = [], hash = []\<rparr>"
    using p1 by simp
  have p2': "new_URL web ''https://x.com/a?utm_source=n&utm_term=t''
       = Some \<lparr>protocol = ''https:'', host = ''x.com'', pathname = ''/a'', opaque_path = False,
                searchParams = [(''utm_source'', ''n''), (''utm_term'', ''t'')], hash = []\<rparr>"
    using p2 by simp
  from r0 p0 p1' r1 p2' r2 show ?thesis by (intro conjI) (elim conjE, assumption)+
qed

end
